theory Spec2Isabelle
  imports
    Main
    "HOL-Library.Char_ord"
    "HOL-Library.List_Lexorder"
    "HOL-Library.Product_Lexorder"
    "HOL-Library.Sublist"
    "HOL-Library.Multiset"
begin

section \<open>Strings and the formatting verbs of the report\<close>

text \<open>
  Go strings are modelled as \<^typ>\<open>string\<close>, one element per character. The width of a
  formatting verb counts characters, so the model is exact for text whose characters are
  single bytes.
\<close>

definition newline :: char where
  "newline = CHR 0x0A"

definition tab :: char where
  "tab = CHR 0x09"

definition escape :: char where
  "escape = CHR 0x1B"

text \<open>\<^verbatim>\<open>%Ns\<close>: right-justified in a field of at least N characters, spaces on the left.\<close>

definition padLeft :: "nat \<Rightarrow> string \<Rightarrow> string" where
  "padLeft w s = replicate (w - length s) CHR '' '' @ s"

text \<open>\<^verbatim>\<open>%-Ns\<close> and \<^verbatim>\<open>%-Nv\<close>: left-justified, spaces on the right.\<close>

definition padRight :: "nat \<Rightarrow> string \<Rightarrow> string" where
  "padRight w s = s @ replicate (w - length s) CHR '' ''"

text \<open>\<^verbatim>\<open>strings.TrimPrefix(s, "/")\<close>: one leading separator is removed, if there is one.\<close>

fun trimPrefixSlash :: "string \<Rightarrow> string" where
  "trimPrefixSlash [] = []"
| "trimPrefixSlash (c # cs) = (if c = CHR ''/'' then cs else c # cs)"

text \<open>\<^verbatim>\<open>%v\<close> of a bool.\<close>

definition fmtBool :: "bool \<Rightarrow> string" where
  "fmtBool b = (if b then ''true'' else ''false'')"

text \<open>\<^verbatim>\<open>%v\<close> of an integer: decimal digits, with a minus sign when negative.\<close>

definition digitChar :: "nat \<Rightarrow> char" where
  "digitChar d = char_of (48 + d)"

function fmtNat :: "nat \<Rightarrow> string" where
  "fmtNat n = (if n < 10 then [digitChar n] else fmtNat (n div 10) @ [digitChar (n mod 10)])"
  by pat_completeness auto
termination
  by (relation "measure id") auto

definition fmtInt :: "int \<Rightarrow> string" where
  "fmtInt i = (if i < 0 then CHR ''-'' # fmtNat (nat (- i)) else fmtNat (nat i))"

subsection \<open>filepath.Clean\<close>

text \<open>
  \<^verbatim>\<open>filepath.Clean\<close> belongs to Go's standard library. It is modelled on path elements:
  empty elements and \<^verbatim>\<open>.\<close> are dropped, \<^verbatim>\<open>..\<close> removes the element before it (and is
  dropped at the root, kept at the front of a relative path), the elements are joined by one
  separator, and the empty result is \<^verbatim>\<open>.\<close>.
\<close>

fun splitSlash :: "string \<Rightarrow> string list" where
  "splitSlash [] = [[]]"
| "splitSlash (c # cs) =
     (if c = CHR ''/'' then [] # splitSlash cs
      else (case splitSlash cs of [] \<Rightarrow> [[c]] | w # ws \<Rightarrow> (c # w) # ws))"

fun joinSlash :: "string list \<Rightarrow> string" where
  "joinSlash [] = []"
| "joinSlash [w] = w"
| "joinSlash (w # ws) = w @ CHR ''/'' # joinSlash ws"

text \<open>The elements kept so far are held in reverse, the last one first.\<close>

fun cleanElems :: "bool \<Rightarrow> string list \<Rightarrow> string list \<Rightarrow> string list" where
  "cleanElems rooted [] kept = rev kept"
| "cleanElems rooted (e # es) kept =
     (if e = [] \<or> e = ''.'' then cleanElems rooted es kept
      else if e = ''..'' then
        (case kept of
           [] \<Rightarrow> if rooted then cleanElems rooted es [] else cleanElems rooted es [''..'']
         | k # ks \<Rightarrow> if k = ''..'' then cleanElems rooted es (''..'' # k # ks)
                     else cleanElems rooted es ks)
      else cleanElems rooted es (e # kept))"

definition Clean :: "string \<Rightarrow> string" where
  "Clean p =
     (if p = [] then ''.''
      else
        let rooted = (hd p = CHR ''/'');
            body = joinSlash (cleanElems rooted (splitSlash p) [])
        in if rooted then CHR ''/'' # body
           else if body = [] then ''.'' else body)"

section \<open>Data model\<close>

text \<open>
  Modelled from the spec: the error type of the repository, which is declared in another
  file. By the spec an aggregated error has a message and retains a single status code; the
  message is the text that \<^verbatim>\<open>%v\<close> prints.
\<close>

record error =
  errMessage :: string
  statusCode :: int

record FileLabels =
  Starred :: bool
  Viewed :: bool
  Trashed :: bool
  Restricted :: bool

text \<open>
  The fields of \<^verbatim>\<open>File\<close> that \<^verbatim>\<open>stat.go\<close> reads. A point in time is an integer; how
  \<^verbatim>\<open>%v\<close> prints it is a parameter of the model.
\<close>

record File =
  Name :: string
  Id_file :: string
  IsDir :: bool
  Size :: int
  QuotaBytesUsed :: int
  Version :: int
  MimeType :: string
  Etag :: string
  ModTime :: int
  LastViewedByMeTime :: int
  Shared :: bool
  OwnerNames :: "string list"
  LastModifyingUsername :: string
  Description :: string
  OriginalFilename :: string
  Md5Checksum :: string
  Copyable :: bool
  Labels :: "FileLabels option"

text \<open>\<^verbatim>\<open>drive.Permission\<close>, the four fields that are rendered.\<close>

record Permission =
  Name_perm :: string
  EmailAddress :: string
  Role :: string
  Type_perm :: string

text \<open>
  What one \<^verbatim>\<open>select\<close> of the consumer receives: a value of the error channel (nil or an
  error), a child of the data channel, or the observation that the data channel is closed.
  A page pair is the sequence of these receptions, in the order the consumer makes them. When
  the sequence ends without a close and without an error, the consumer waits forever.
\<close>

datatype recv =
  ErrRecv "error option"
| ChildRecv File
| ChildClosed

type_synonym pagePair = "recv list"

text \<open>The remote, as far as \<^verbatim>\<open>stat.go\<close> calls it.\<close>

record Remote =
  listPermissions :: "string \<Rightarrow> Permission list \<times> error option"
  FindByParentId :: "string \<Rightarrow> bool \<Rightarrow> pagePair"

record Options =
  Sources :: "string list"
  Md5sum :: bool
  CsvOutput :: bool
  Depth :: int
  Hidden :: bool
  Path :: string

text \<open>
  Functions that \<^verbatim>\<open>stat.go\<close> calls and that are defined in other files or packages; they
  are parameters of the model: \<^verbatim>\<open>prettyBytes\<close>, \<^verbatim>\<open>sepJoin\<close>, \<^verbatim>\<open>rootLike\<close>, the
  \<^verbatim>\<open>%v\<close> rendering of a time and the \<^verbatim>\<open>%q\<close> rendering of a string.
\<close>

record Library =
  prettyBytes :: "int \<Rightarrow> string"
  sepJoin :: "string \<Rightarrow> string list \<Rightarrow> string"
  rootLike :: "string \<Rightarrow> bool"
  fmtTime :: "int \<Rightarrow> string"
  fmtQuoted :: "string \<Rightarrow> string"

record Commands =
  opts :: Options
  rem :: Remote
  lib :: Library

text \<open>
  The mutable state: the text written to the log sink, one element per call of \<^verbatim>\<open>Logf\<close>
  in the order of the calls, and the package variable \<^verbatim>\<open>firstLine\<close>.
\<close>

record state =
  out :: "string list"
  firstLine :: bool

text \<open>\<^verbatim>\<open>var firstLine = true\<close>: the state of a fresh process.\<close>

definition initialState :: state where
  "initialState = \<lparr>out = [], firstLine = True\<rparr>"

definition Logf :: "string \<Rightarrow> state \<Rightarrow> state" where
  "Logf line s = s\<lparr>out := out s @ [line]\<rparr>"

definition Logfs :: "string list \<Rightarrow> state \<Rightarrow> state" where
  "Logfs lines s = s\<lparr>out := out s @ lines\<rparr>"

section \<open>The formatters\<close>

text \<open>
  Each formatter is given the log function and calls it several times; the model returns
  the texts of these calls, in order.
\<close>

definition prettyPermission :: "Permission \<Rightarrow> string list" where
  "prettyPermission perm =
     [newline # ''*'' @ newline # ''Name: '' @ Name_perm perm @ '' <'' @ EmailAddress perm
        @ ''>'' @ [newline]]
     @ map (\<lambda>(k, v). padRight 20 k @ '' '' @ padRight 30 v @ [newline])
         [(''Role'', Role perm), (''AccountType'', Type_perm perm)]
     @ [''*'' @ [newline]]"

definition dirTypeOf :: "File \<Rightarrow> string" where
  "dirTypeOf file = (if IsDir file then ''folder'' else ''file'')"

definition prettyFilePermission :: "Permission \<Rightarrow> File \<Rightarrow> string list" where
  "prettyFilePermission perm file =
     [padRight 60 (Name file) @ '','' @ padRight 10 (dirTypeOf file) @ '',''
        @ padRight 25 (Name_perm perm) @ '','' @ padRight 25 (EmailAddress perm) @ [tab, tab]]
     @ map (\<lambda>(k, v). '','' @ padRight 25 v)
         [(''Role'', Role perm), (''AccountType'', Type_perm perm)]
     @ [[newline]]"

text \<open>The list \<^verbatim>\<open>kvList\<close> that \<^verbatim>\<open>prettyFileStat\<close> builds.\<close>

definition fileStatKvList :: "Library \<Rightarrow> File \<Rightarrow> (string \<times> string) list" where
  "fileStatKvList l file =
     [(''Filename'', Name file),
      (''FileId'', Id_file file),
      (''Bytes'', fmtInt (Size file)),
      (''Size'', prettyBytes l (Size file)),
      (''QuotaBytesUsed'', fmtInt (QuotaBytesUsed file)),
      (''DirType'', dirTypeOf file),
      (''VersionNumber'', fmtInt (Version file)),
      (''MimeType'', MimeType file),
      (''Etag'', Etag file),
      (''ModTime'', fmtTime l (ModTime file)),
      (''LastViewedByMe'', fmtTime l (LastViewedByMeTime file)),
      (''Shared'', fmtBool (Shared file)),
      (''Owners'', sepJoin l '' & '' (OwnerNames file)),
      (''LastModifyingUsername'', LastModifyingUsername file)]
     @ (if Description file \<noteq> [] then [(''Description'', fmtQuoted l (Description file))]
        else [])
     @ (if Name file \<noteq> OriginalFilename file
        then [(''OriginalFilename'', OriginalFilename file)] else [])
     @ (if \<not> IsDir file
        then [(''Md5Checksum'', Md5Checksum file), (''Copyable'', fmtBool (Copyable file))]
        else [])
     @ (case Labels file of
          None \<Rightarrow> []
        | Some ls \<Rightarrow>
            [(''Starred'', fmtBool (Starred ls)),
             (''Viewed'', fmtBool (Viewed ls)),
             (''Trashed'', fmtBool (Trashed ls)),
             (''ViewersCanDownload'', fmtBool (Restricted ls))])"

definition kvRow :: "string \<times> string \<Rightarrow> string" where
  "kvRow kv = padRight 25 (fst kv) @ '' '' @ padRight 30 (snd kv) @ [newline]"

definition pathHeader :: "string \<Rightarrow> string" where
  "pathHeader relToRootPath =
     [newline, escape] @ ''[92m'' @ relToRootPath @ [escape] @ ''[00m'' @ [newline]"

definition prettyFileStat :: "Library \<Rightarrow> string \<Rightarrow> File \<Rightarrow> string list" where
  "prettyFileStat l relToRootPath file =
     pathHeader relToRootPath # map kvRow (fileStatKvList l file)"

section \<open>The traversal\<close>

definition csvHeader :: string where
  "csvHeader = ''File Name, Type, Name, Email, Role, AccountType'' @ [newline]"

definition checksumLine :: "string \<Rightarrow> string \<Rightarrow> string" where
  "checksumLine md5 relToRootPath =
     padLeft 32 md5 @ ''  '' @ trimPrefixSlash relToRootPath @ [newline]"

text \<open>
  The first block of \<^verbatim>\<open>stat\<close>, which renders the object itself. The second component is
  the error with which \<^verbatim>\<open>stat\<close> returns from inside the block, if it does.
\<close>

definition renderObject :: "Commands \<Rightarrow> string \<Rightarrow> File \<Rightarrow> state \<Rightarrow> state \<times> error option" where
  "renderObject g relToRootPath file s =
     (if Md5sum (opts g) then
        (if Md5Checksum file \<noteq> [] then Logf (checksumLine (Md5Checksum file) relToRootPath) s
         else s, None)
      else
        let (perms, permErr) = listPermissions (rem g) (Id_file file) in
        if CsvOutput (opts g) then
          let s1 = (if firstLine s then (Logf csvHeader s)\<lparr>firstLine := False\<rparr> else s)
          in (fold (\<lambda>perm. Logfs (prettyFilePermission perm file)) perms s1, None)
        else
          let s1 = Logfs (prettyFileStat (lib g) relToRootPath file) s
          in (case permErr of
                Some e \<Rightarrow> (s1, Some e)
              | None \<Rightarrow> (fold (\<lambda>perm. Logfs (prettyPermission perm)) perms s1, None)))"

text \<open>
  The loop of \<^verbatim>\<open>stat\<close> that drains the page pair. \<open>None\<close>: the consumer waits forever;
  \<open>Some (Inl e)\<close>: \<^verbatim>\<open>stat\<close> returns \<open>e\<close>; \<open>Some (Inr cs)\<close>: the data channel was seen
  closed and \<open>cs\<close> are the children collected, in the order of their arrival.
\<close>

fun collectChildren :: "pagePair \<Rightarrow> File list \<Rightarrow> (error + File list) option" where
  "collectChildren [] remoteChildren = None"
| "collectChildren (ErrRecv None # rs) remoteChildren = collectChildren rs remoteChildren"
| "collectChildren (ErrRecv (Some err) # rs) remoteChildren = Some (Inl err)"
| "collectChildren (ChildRecv child # rs) remoteChildren =
     collectChildren rs (remoteChildren @ [child])"
| "collectChildren (ChildClosed # rs) remoteChildren = Some (Inr remoteChildren)"

text \<open>
  Modelled from the spec: \<^verbatim>\<open>g.sort(remoteChildren, Md5Key, NameKey)\<close>, which is defined in
  another file of the repository. By the spec the children are sorted by checksum first and
  name second; strings are compared as Go compares them, character by character.
\<close>

definition sortChildren :: "File list \<Rightarrow> File list" where
  "sortChildren fl = sort_key (\<lambda>f. (Md5Checksum f, Name f)) fl"

text \<open>
  \<^verbatim>\<open>stat\<close> recurses along the remote tree, without a bound when the depth is negative. The
  first argument bounds the nesting of calls; \<open>None\<close> means that the call has not returned:
  the nesting exceeds the bound, or a consumer waits forever. \<open>statChildren\<close> is the loop over
  the children at the end of \<^verbatim>\<open>stat\<close>; it drops what each call returns.
\<close>

fun stat :: "nat \<Rightarrow> Commands \<Rightarrow> string \<Rightarrow> File \<Rightarrow> int \<Rightarrow> state \<Rightarrow> (state \<times> error option) option"
  and statChildren :: "nat \<Rightarrow> Commands \<Rightarrow> string \<Rightarrow> File list \<Rightarrow> int \<Rightarrow> state \<Rightarrow> state option"
where
  "stat 0 g relToRootPath file depth s = None"
| "stat (Suc n) g relToRootPath file depth s =
     (case renderObject g relToRootPath file s of
        (s1, Some permErr) \<Rightarrow> Some (s1, Some permErr)
      | (s1, None) \<Rightarrow>
          if depth = 0 then Some (s1, None)
          else if \<not> IsDir file then Some (s1, None)
          else
            (case collectChildren (FindByParentId (rem g) (Id_file file) (Hidden (opts g))) [] of
               None \<Rightarrow> None
             | Some (Inl err) \<Rightarrow> Some (s1, Some err)
             | Some (Inr remoteChildren) \<Rightarrow>
                 (case statChildren n g relToRootPath
                         (if Md5sum (opts g) then sortChildren remoteChildren
                          else remoteChildren)
                         (if depth \<ge> 1 then depth - 1 else depth) s1 of
                    None \<Rightarrow> None
                  | Some s2 \<Rightarrow> Some (s2, None))))"
| "statChildren n g relToRootPath [] depth s = Some s"
| "statChildren n g relToRootPath (child # children) depth s =
     (case stat n g (Clean (relToRootPath @ ''/'' @ Name child)) child depth s of
        None \<Rightarrow> None
      | Some (s1, _) \<Rightarrow> statChildren n g relToRootPath children depth s1)"

subsection \<open>The loop over the sources\<close>

text \<open>
  Modelled from the spec: \<^verbatim>\<open>reComposeError\<close>, defined in another file of the repository.
  By the spec the messages of the failures are concatenated, joined by a newline, and none
  is discarded.
\<close>

definition reComposeError :: "error option \<Rightarrow> string \<Rightarrow> error option" where
  "reComposeError prevErr msg =
     (case prevErr of
        None \<Rightarrow> Some \<lparr>errMessage = msg, statusCode = 0\<rparr>
      | Some e \<Rightarrow> Some (e\<lparr>errMessage := errMessage e @ [newline] @ msg\<rparr>))"

text \<open>
  Modelled from the spec: \<^verbatim>\<open>copyErrStatusCode\<close>, defined in another file of the
  repository. By the spec a single status code is retained and the last write wins.
\<close>

definition copyErrStatusCode :: "error option \<Rightarrow> error \<Rightarrow> error option" where
  "copyErrStatusCode to from =
     (case to of None \<Rightarrow> None | Some e \<Rightarrow> Some (e\<lparr>statusCode := statusCode from\<rparr>))"

text \<open>\<^verbatim>\<open>fmt.Sprintf("%s: %s err: %v\n", fname, src, fErr)\<close>\<close>

definition failureMsg :: "string \<Rightarrow> string \<Rightarrow> error \<Rightarrow> string" where
  "failureMsg fname src fErr =
     fname @ '': '' @ src @ '' err: '' @ errMessage fErr @ [newline]"

text \<open>The path that \<^verbatim>\<open>statfn\<close> hands to \<^verbatim>\<open>stat\<close> for the source \<open>src\<close> resolved to \<open>f\<close>.\<close>

definition statTarget :: "Commands \<Rightarrow> string \<Rightarrow> File \<Rightarrow> string" where
  "statTarget g src f =
     (if Md5sum (opts g)
      then (if IsDir f \<and> rootLike (lib g) (Path (opts g)) then [] else Name f)
      else src)"

text \<open>
  The loop of \<^verbatim>\<open>statfn\<close> over a list of sources, from the state and the error accumulated
  so far. The resolver \<open>fn\<close> returns a file or an error.
\<close>

fun statLoop ::
  "nat \<Rightarrow> Commands \<Rightarrow> string \<Rightarrow> (string \<Rightarrow> error + File) \<Rightarrow> string list
     \<Rightarrow> state \<times> error option \<Rightarrow> (state \<times> error option) option" where
  "statLoop n g fname fn [] (s, err) = Some (s, err)"
| "statLoop n g fname fn (src # srcs) (s, err) =
     (case fn src of
        Inl fErr \<Rightarrow>
          statLoop n g fname fn srcs
            (s, copyErrStatusCode (reComposeError err (failureMsg fname src fErr)) fErr)
      | Inr f \<Rightarrow>
          (case stat n g (statTarget g src f) f (Depth (opts g)) s of
             None \<Rightarrow> None
           | Some (s1, Some fErr) \<Rightarrow>
               statLoop n g fname fn srcs
                 (s1, copyErrStatusCode
                        (reComposeError err (failureMsg fname (statTarget g src f) fErr)) fErr)
           | Some (s1, None) \<Rightarrow> statLoop n g fname fn srcs (s1, err)))"

definition statfn ::
  "nat \<Rightarrow> Commands \<Rightarrow> string \<Rightarrow> (string \<Rightarrow> error + File) \<Rightarrow> state
     \<Rightarrow> (state \<times> error option) option" where
  "statfn n g fname fn s = statLoop n g fname fn (Sources (opts g)) (s, None)"

section \<open>Notions used in the statements\<close>

text \<open>The children that a sequence of receptions delivers on the data channel, in order.\<close>

fun delivered :: "pagePair \<Rightarrow> File list" where
  "delivered [] = []"
| "delivered (ChildRecv child # rs) = child # delivered rs"
| "delivered (r # rs) = delivered rs"

text \<open>A reception after which the consumer goes on: a nil error or a child.\<close>

fun continues :: "recv \<Rightarrow> bool" where
  "continues (ErrRecv None) = True"
| "continues (ChildRecv child) = True"
| "continues r = False"

text \<open>
  A remote whose listings never leave the consumer waiting: each one reaches a close of the
  data channel or an error.
\<close>

definition listingsEnd :: "Commands \<Rightarrow> bool" where
  "listingsEnd g = (\<forall>parentId hidden. collectChildren (FindByParentId (rem g) parentId hidden) [] \<noteq> None)"

text \<open>
  The checksum line as the spec words it: the checksum padded on the right to the fixed
  width, two spaces, and the path without its leading separator.
\<close>

definition specChecksumLine :: "string \<Rightarrow> string \<Rightarrow> string" where
  "specChecksumLine md5 relToRootPath =
     padRight 32 md5 @ ''  '' @ trimPrefixSlash relToRootPath @ [newline]"

text \<open>
  The CSV row as the spec words it: the six fields in order, the fields of the object padded
  on the left to their widths, and only commas between the fields.
\<close>

definition specCsvRow :: "Permission \<Rightarrow> File \<Rightarrow> string" where
  "specCsvRow perm file =
     padLeft 60 (Name file) @ '','' @ padLeft 10 (dirTypeOf file) @ '',''
       @ Name_perm perm @ '','' @ EmailAddress perm @ '','' @ Role perm @ '',''
       @ Type_perm perm @ [newline]"

text \<open>The messages of the failures, joined by newlines.\<close>

fun joinLines :: "string list \<Rightarrow> string" where
  "joinLines [] = []"
| "joinLines [m] = m"
| "joinLines (m # ms) = m @ [newline] @ joinLines ms"

text \<open>
  The two assignments by which the loop of \<^verbatim>\<open>statfn\<close> records a failure: the source text
  shown in the message and the error.
\<close>

definition recordFailure :: "string \<Rightarrow> error option \<Rightarrow> string \<times> error \<Rightarrow> error option" where
  "recordFailure fname err failure =
     copyErrStatusCode (reComposeError err (failureMsg fname (fst failure) (snd failure)))
       (snd failure)"

text \<open>
  The failure of one source in the loop of \<^verbatim>\<open>statfn\<close>, if it fails: the error of the
  resolver, shown with the source, or the error that \<^verbatim>\<open>stat\<close> returns, shown with the path
  handed to \<^verbatim>\<open>stat\<close>. What \<^verbatim>\<open>stat\<close> returns does not depend on the state in which it
  starts, so the fresh state is taken.
\<close>

definition sourceFailure ::
  "nat \<Rightarrow> Commands \<Rightarrow> (string \<Rightarrow> error + File) \<Rightarrow> string \<Rightarrow> (string \<times> error) option" where
  "sourceFailure n g fn src =
     (case fn src of
        Inl fErr \<Rightarrow> Some (src, fErr)
      | Inr f \<Rightarrow>
          (case stat n g (statTarget g src f) f (Depth (opts g)) initialState of
             Some (s1, Some fErr) \<Rightarrow> Some (statTarget g src f, fErr)
           | _ \<Rightarrow> None))"

text \<open>The invariant of the data model, from the spec: a container never has a checksum.\<close>

definition containerWithoutChecksum :: "File \<Rightarrow> bool" where
  "containerWithoutChecksum f = (IsDir f \<longrightarrow> Md5Checksum f = [])"

text \<open>
  The checksum line of one object at a path, as the spec words it apart from the side of the
  padding: nothing for an empty checksum, else the checksum in its field, two spaces and the
  path without a leading separator.
\<close>

definition ownChecksumLine :: "string \<Rightarrow> File \<Rightarrow> string list" where
  "ownChecksumLine p f =
     (if Md5Checksum f = [] then []
      else [padLeft 32 (Md5Checksum f) @ ''  '' @ trimPrefixSlash p @ [newline]])"

text \<open>
  The checksum lines of a traversal, as the spec words them: the line of the object at its
  path; then, for a container with depth left whose listing reaches the close, the lines of
  its children in sorted order, each child at the path made of the path of its parent, a
  separator and the name of the child, normalized. The first argument bounds the nesting, and
  \<open>None\<close> means that the traversal does not end within it.
\<close>

fun checksumLinesOf :: "nat \<Rightarrow> Commands \<Rightarrow> string \<Rightarrow> File \<Rightarrow> int \<Rightarrow> string list option"
  and checksumLinesOfChildren ::
    "nat \<Rightarrow> Commands \<Rightarrow> string \<Rightarrow> File list \<Rightarrow> int \<Rightarrow> string list option"
where
  "checksumLinesOf 0 g p f depth = None"
| "checksumLinesOf (Suc n) g p f depth =
     (if depth = 0 \<or> \<not> IsDir f then Some (ownChecksumLine p f)
      else
        (case collectChildren (FindByParentId (rem g) (Id_file f) (Hidden (opts g))) [] of
           None \<Rightarrow> None
         | Some (Inl err) \<Rightarrow> Some (ownChecksumLine p f)
         | Some (Inr children) \<Rightarrow>
             map_option (\<lambda>ls. ownChecksumLine p f @ ls)
               (checksumLinesOfChildren n g p (sortChildren children)
                  (if 1 \<le> depth then depth - 1 else depth))))"
| "checksumLinesOfChildren n g p [] depth = Some []"
| "checksumLinesOfChildren n g p (c # cs) depth =
     (case checksumLinesOf n g (Clean (p @ ''/'' @ Name c)) c depth of
        None \<Rightarrow> None
      | Some ls \<Rightarrow> map_option (\<lambda>rest. ls @ rest) (checksumLinesOfChildren n g p cs depth))"

text \<open>
  The checksum lines of a run over a list of sources: a source that is not resolved has none,
  and a source resolved to an object has the lines of the traversal of that object, at the
  path that is the name of the object, or empty for a container when the configured path is
  root-like.
\<close>

fun checksumLinesOfSources ::
  "nat \<Rightarrow> Commands \<Rightarrow> (string \<Rightarrow> error + File) \<Rightarrow> string list \<Rightarrow> string list option" where
  "checksumLinesOfSources n g fn [] = Some []"
| "checksumLinesOfSources n g fn (src # srcs) =
     (case fn src of
        Inl fErr \<Rightarrow> checksumLinesOfSources n g fn srcs
      | Inr f \<Rightarrow>
          (case checksumLinesOf n g
                  (if IsDir f \<and> rootLike (lib g) (Path (opts g)) then [] else Name f) f
                  (Depth (opts g)) of
             None \<Rightarrow> None
           | Some ls \<Rightarrow> map_option (\<lambda>rest. ls @ rest) (checksumLinesOfSources n g fn srcs)))"

section \<open>Example inputs\<close>

definition exampleLib :: Library where
  "exampleLib =
     \<lparr>prettyBytes = (\<lambda>n. fmtInt n @ ''B''),
      sepJoin = (\<lambda>sep xs. concat (map (\<lambda>x. x @ sep) xs)),
      rootLike = (\<lambda>p. p = ''/'' \<or> p = []),
      fmtTime = fmtInt,
      fmtQuoted = (\<lambda>d. d)\<rparr>"

definition exampleFile :: "string \<Rightarrow> string \<Rightarrow> bool \<Rightarrow> string \<Rightarrow> File" where
  "exampleFile name ident isDir md5 =
     \<lparr>Name = name, Id_file = ident, IsDir = isDir, Size = 0, QuotaBytesUsed = 0, Version = 1,
      MimeType = [], Etag = [], ModTime = 0, LastViewedByMeTime = 0, Shared = False,
      OwnerNames = [], LastModifyingUsername = [], Description = [], OriginalFilename = name,
      Md5Checksum = md5, Copyable = False, Labels = None\<rparr>"

definition fileA :: File where
  "fileA = exampleFile ''a'' ''ida'' True []"

definition fileB :: File where
  "fileB = exampleFile ''b'' ''idb'' False ''deadbeef''"

definition fileC :: File where
  "fileC = exampleFile ''c'' ''idc'' False ''aa''"

definition fileE :: File where
  "fileE = exampleFile ''e'' ''ide'' True []"

definition denied :: error where
  "denied = \<lparr>errMessage = ''denied'', statusCode = 403\<rparr>"

definition notFound :: error where
  "notFound = \<lparr>errMessage = ''not found'', statusCode = 404\<rparr>"

definition listFailed :: error where
  "listFailed = \<lparr>errMessage = ''listing failed'', statusCode = 500\<rparr>"

definition alice :: Permission where
  "alice = \<lparr>Name_perm = ''Alice'', EmailAddress = ''alice@example.com'', Role = ''owner'',
      Type_perm = ''user''\<rparr>"

definition bob :: Permission where
  "bob = \<lparr>Name_perm = ''Bob'', EmailAddress = ''bob@example.com'', Role = ''reader'',
      Type_perm = ''user''\<rparr>"

text \<open>
  A remote with a folder \<open>ida\<close> holding the files \<open>b\<close> and \<open>c\<close>, a folder \<open>ide\<close> whose
  listing fails after the first child, and a file \<open>b\<close> whose permissions cannot be fetched.
\<close>

definition exampleRemote :: Remote where
  "exampleRemote =
     \<lparr>listPermissions =
        (\<lambda>ident. if ident = ''idb'' then ([], Some denied)
                  else if ident = ''ida'' then ([alice, bob], None)
                  else ([], None)),
      FindByParentId =
        (\<lambda>parentId hidden.
           if parentId = ''ida'' then [ChildRecv fileB, ErrRecv None, ChildRecv fileC, ChildClosed]
           else if parentId = ''ide'' then [ChildRecv fileB, ErrRecv (Some listFailed), ChildClosed]
           else [ChildClosed])\<rparr>"

definition exampleCommands :: "bool \<Rightarrow> bool \<Rightarrow> Commands" where
  "exampleCommands md5 csv =
     \<lparr>opts = \<lparr>Sources = [''good'', ''bad1'', ''bad2''], Md5sum = md5, CsvOutput = csv, Depth = 1,
              Hidden = False, Path = ''/''\<rparr>,
      rem = exampleRemote, lib = exampleLib\<rparr>"

definition exampleResolve :: "string \<Rightarrow> error + File" where
  "exampleResolve src =
     (if src = ''good'' then Inr fileA
      else if src = ''bad1'' then Inl notFound
      else Inl denied)"

section \<open>Draining the page pair\<close>

lemma collectChildren_closed:
  "\<forall>r\<in>set pre. continues r \<Longrightarrow>
     collectChildren (pre @ ChildClosed # rest) acc = Some (Inr (acc @ delivered pre))"
proof (induction pre arbitrary: acc)
  case Nil
  show ?case by simp
next
  case (Cons r pre)
  then show ?case
    by (cases r rule: continues.cases) simp_all
qed

lemma collectChildren_error:
  "\<forall>r\<in>set pre. continues r \<Longrightarrow>
     collectChildren (pre @ ErrRecv (Some err) # rest) acc = Some (Inl err)"
proof (induction pre arbitrary: acc)
  case Nil
  show ?case by simp
next
  case (Cons r pre)
  then show ?case
    by (cases r rule: continues.cases) simp_all
qed

text \<open>
  C1: The consumer receives from the two channels until it sees the data channel closed. A
  nil on the error channel changes nothing and consumption goes on. A non-nil error ends
  consumption at once, whatever follows it, and \<^verbatim>\<open>stat\<close> returns that error in the state
  it had after rendering the container itself: no child collected before the error is
  rendered or recursed into.
\<close>

theorem stat_page_error_aborts:
  assumes "\<forall>r\<in>set pre. continues r"
  shows "collectChildren (ErrRecv None # rs) acc = collectChildren rs acc
    \<and> collectChildren (pre @ ChildClosed # rest) [] = Some (Inr (delivered pre))
    \<and> collectChildren (pre @ ErrRecv (Some err) # rest) [] = Some (Inl err)
    \<and> (renderObject g relToRootPath f s = (s1, None) \<longrightarrow> depth \<noteq> 0 \<longrightarrow> IsDir f \<longrightarrow>
         FindByParentId (rem g) (Id_file f) (Hidden (opts g))
           = pre @ ErrRecv (Some err) # rest \<longrightarrow>
         stat (Suc n) g relToRootPath f depth s = Some (s1, Some err))"
  using collectChildren_closed [OF assms, of rest "[]"]
    collectChildren_error [OF assms, of err rest "[]"]
  by simp

theorem stat_page_error_aborts_witness:
  "stat 1 (exampleCommands False True) ''/e'' fileE 1 initialState
     = Some (\<lparr>out = [csvHeader], firstLine = False\<rparr>, Some listFailed)"
  using stat_page_error_aborts [where pre = "[ChildRecv fileB]"
      and g = "exampleCommands False True"
      and relToRootPath = "''/e''" and f = fileE and s = initialState
      and ?s1.0 = "\<lparr>out = [csvHeader], firstLine = False\<rparr>" and depth = 1
      and err = listFailed and rest = "[ChildClosed]" and n = 0]
  by (simp add: renderObject_def exampleCommands_def exampleRemote_def fileE_def exampleFile_def
       initialState_def Logf_def)

section \<open>Rendering one object\<close>

lemma trimPrefixSlash_eq:
  "trimPrefixSlash p = (if take 1 p = ''/'' then drop 1 p else p)"
  by (cases p) auto

lemma renderObject_lister:
  "renderObject (g\<lparr>rem := (rem g)\<lparr>FindByParentId := lister\<rparr>\<rparr>) relToRootPath f s
     = renderObject g relToRootPath f s"
  by (simp add: renderObject_def Let_def split: prod.splits)

text \<open>
  C3, as amended: In checksum mode an object with a non-empty checksum adds exactly one entry
  to the output: the checksum right-justified in a field of at least 32 characters (spaces
  are put on its left, and a longer checksum is not cut), two spaces, the path without one
  leading separator, and a newline. An object with an empty checksum adds nothing. When the
  depth is 0 or the object is not a container, this is all that \<^verbatim>\<open>stat\<close> does.
\<close>

theorem checksum_line_format:
  assumes "Md5sum (opts g)"
  shows "renderObject g relToRootPath f s =
      (if Md5Checksum f = [] then s
       else s\<lparr>out := out s @
              [replicate (32 - length (Md5Checksum f)) CHR '' '' @ Md5Checksum f @ ''  ''
                 @ (if take 1 relToRootPath = ''/'' then drop 1 relToRootPath else relToRootPath)
                 @ [CHR 0x0A]]\<rparr>,
       None)
    \<and> (depth = 0 \<or> \<not> IsDir f \<longrightarrow>
         stat (Suc n) g relToRootPath f depth s = Some (renderObject g relToRootPath f s))"
  using assms
  by (simp add: renderObject_def checksumLine_def padLeft_def Logf_def newline_def
        trimPrefixSlash_eq)

theorem checksum_line_format_witness:
  "Md5sum (opts (exampleCommands True False))
   \<and> stat 1 (exampleCommands True False) ''/b'' fileB 0 initialState
     = Some (\<lparr>out = [replicate 24 CHR '' '' @ ''deadbeef  b'' @ [CHR 0x0A]],
              firstLine = True\<rparr>, None)"
  using checksum_line_format [where g = "exampleCommands True False" and relToRootPath = "''/b''"
     and f = fileB and s = initialState and depth = 0 and n = 0]
  by (simp add: exampleCommands_def fileB_def exampleFile_def initialState_def)

text \<open>
  C3, as the claim words it, fails: for the checksum \<^verbatim>\<open>deadbeef\<close> and the path
  \<^verbatim>\<open>/a/b\<close> the line starts with 24 spaces; the padding is on the left of the checksum, not
  on its right.
\<close>

theorem checksum_line_not_right_padded:
  "stat 1 (exampleCommands True False) ''/a/b'' fileB 0 initialState
     = Some (\<lparr>out = [replicate 24 CHR '' '' @ ''deadbeef  a/b'' @ [newline]],
              firstLine = True\<rparr>, None)
   \<and> replicate 24 CHR '' '' @ ''deadbeef  a/b'' @ [newline]
     \<noteq> specChecksumLine (Md5Checksum fileB) ''/a/b''"
  by (simp add: renderObject_def exampleCommands_def fileB_def exampleFile_def initialState_def
       Logf_def checksumLine_def padLeft_def specChecksumLine_def padRight_def numeral_eq_Suc)

text \<open>
  C5, as amended: When the depth is 0 or the object is not a container, \<^verbatim>\<open>stat\<close> renders
  that object and nothing else, and returns what the rendering returns, whatever the child
  lister of the remote is: no listing is made and no recursion. The value returned is nil in
  checksum mode and in CSV mode; in verbose mode it is the error of the permission fetch, nil
  when the fetch succeeded.
\<close>

theorem stat_without_recursion:
  assumes "depth = 0 \<or> \<not> IsDir f"
  shows "stat (Suc n) (g\<lparr>rem := (rem g)\<lparr>FindByParentId := lister\<rparr>\<rparr>) relToRootPath f depth s
      = Some (renderObject g relToRootPath f s)
    \<and> snd (renderObject g relToRootPath f s)
      = (if Md5sum (opts g) \<or> CsvOutput (opts g) then None
         else snd (listPermissions (rem g) (Id_file f)))"
proof -
  have "stat (Suc n) (g\<lparr>rem := (rem g)\<lparr>FindByParentId := lister\<rparr>\<rparr>) relToRootPath f depth s
      = Some (renderObject g relToRootPath f s)"
    using assms
    by (cases "renderObject g relToRootPath f s")
       (auto simp: renderObject_lister split: option.splits)
  moreover have "snd (renderObject g relToRootPath f s)
      = (if Md5sum (opts g) \<or> CsvOutput (opts g) then None
         else snd (listPermissions (rem g) (Id_file f)))"
    by (auto simp: renderObject_def Let_def split: prod.splits option.splits)
  ultimately show ?thesis by simp
qed

theorem stat_without_recursion_witness:
  "stat 1 (exampleCommands False True) ''/a'' fileA 0 initialState
     = Some (renderObject (exampleCommands False True) ''/a'' fileA initialState)
   \<and> snd (renderObject (exampleCommands False True) ''/a'' fileA initialState) = None"
  using stat_without_recursion [where depth = 0 and f = fileA
     and g = "exampleCommands False True" and lister = "FindByParentId exampleRemote"
     and n = 0 and relToRootPath = "''/a''" and s = initialState]
  by (simp add: exampleCommands_def)

text \<open>
  C5, as the claim words it, fails: in verbose mode, with depth 0, a file whose permissions
  cannot be fetched makes \<^verbatim>\<open>stat\<close> return the error of the fetch.
\<close>

theorem stat_returns_permission_error:
  "map_option snd (stat 1 (exampleCommands False False) ''/b'' fileB 0 initialState)
     = Some (Some denied)"
  by (simp add: renderObject_def exampleCommands_def exampleRemote_def fileB_def exampleFile_def
        split: prod.splits)

section \<open>The output only grows\<close>

lemma fold_Logfs_out:
  "out (fold (\<lambda>x. Logfs (F x)) xs s) = out s @ concat (map F xs)"
  by (induction xs arbitrary: s) (simp_all add: Logfs_def)

lemma fold_Logfs_firstLine:
  "firstLine (fold (\<lambda>x. Logfs (F x)) xs s) = firstLine s"
  by (induction xs arbitrary: s) (simp_all add: Logfs_def)

lemma renderObject_out_prefix:
  "prefix (out s) (out (fst (renderObject g relToRootPath f s)))"
  by (auto simp: renderObject_def Let_def Logf_def Logfs_def fold_Logfs_out
        split: prod.splits option.splits)

lemma renderObject_result:
  "snd (renderObject g relToRootPath f s) = snd (renderObject g relToRootPath f t)"
  by (auto simp: renderObject_def Let_def split: prod.splits option.splits)

lemma stat_out_prefix:
  "stat n g relToRootPath f depth s = Some (s', r) \<Longrightarrow> prefix (out s) (out s')"
  "statChildren n g relToRootPath children depth s = Some s' \<Longrightarrow> prefix (out s) (out s')"
proof (induction n g relToRootPath f depth s and n g relToRootPath children depth s
    arbitrary: s' r and s' rule: stat_statChildren.induct)
  case (1 g relToRootPath f depth s)
  then show ?case by simp
next
  case (2 n g relToRootPath f depth s)
  obtain s1 e where ro: "renderObject g relToRootPath f s = (s1, e)"
    by (cases "renderObject g relToRootPath f s")
  have p1: "prefix (out s) (out s1)"
    using renderObject_out_prefix [of s g relToRootPath f] ro by simp
  show ?case
  proof (cases "e = None \<and> depth \<noteq> 0 \<and> IsDir f")
    case False
    then show ?thesis using "2.prems" ro p1
      by (auto split: option.splits if_splits)
  next
    case True
    show ?thesis
    proof (cases "collectChildren (FindByParentId (rem g) (Id_file f) (Hidden (opts g))) []")
      case None
      then show ?thesis using "2.prems" ro True by simp
    next
      case (Some res)
      show ?thesis
      proof (cases res)
        case (Inl err)
        then show ?thesis using "2.prems" ro True Some p1 by auto
      next
        case (Inr remoteChildren)
        from "2.prems" ro True Some Inr
        have sc: "statChildren n g relToRootPath
               (if Md5sum (opts g) then sortChildren remoteChildren else remoteChildren)
               (if depth \<ge> 1 then depth - 1 else depth) s1 = Some s'"
          by (auto split: option.splits)
        have "prefix (out s1) (out s')"
          using "2.IH" [OF ro [symmetric] _ _ _ Some Inr sc] True by simp
        with p1 show ?thesis by (rule prefix_order.trans)
      qed
    qed
  qed
next
  case (3 n g relToRootPath depth s)
  then show ?case by simp
next
  case (4 n g relToRootPath child children depth s)
  from "4.prems" obtain s1 r1 where
    st: "stat n g (Clean (relToRootPath @ ''/'' @ Name child)) child depth s = Some (s1, r1)"
    and sc: "statChildren n g relToRootPath children depth s1 = Some s'"
    by (auto split: option.splits)
  have "prefix (out s) (out s1)" using "4.IH"(1) [OF st] .
  moreover have "prefix (out s1) (out s')" using "4.IH"(2) [OF st _ sc] by simp
  ultimately show ?case by (rule prefix_order.trans)
qed

section \<open>What is returned does not depend on the state\<close>

lemma stat_result_independent:
  "map_option snd (stat n g relToRootPath f depth s) = map_option snd (stat n g relToRootPath f depth t)"
  "(statChildren n g relToRootPath children depth s = None) = (statChildren n g relToRootPath children depth t = None)"
proof (induction n g relToRootPath f depth s and n g relToRootPath children depth s
    arbitrary: t and t rule: stat_statChildren.induct)
  case (1 g relToRootPath f depth s)
  then show ?case by simp
next
  case (2 n g relToRootPath f depth s)
  obtain s1 e where ro: "renderObject g relToRootPath f s = (s1, e)"
    by (cases "renderObject g relToRootPath f s")
  obtain t1 e' where rt: "renderObject g relToRootPath f t = (t1, e')"
    by (cases "renderObject g relToRootPath f t")
  have ee: "e' = e"
    using renderObject_result [of g relToRootPath f s t] ro rt by simp
  show ?case
  proof (cases "e = None \<and> depth \<noteq> 0 \<and> IsDir f")
    case False
    then show ?thesis using ro rt ee
      by (auto split: option.splits if_splits)
  next
    case True
    show ?thesis
    proof (cases "collectChildren (FindByParentId (rem g) (Id_file f) (Hidden (opts g))) []")
      case None
      then show ?thesis using ro rt ee True by simp
    next
      case (Some res)
      show ?thesis
      proof (cases res)
        case (Inl err)
        then show ?thesis using ro rt ee True Some by auto
      next
        case (Inr remoteChildren)
        have "(statChildren n g relToRootPath
               (if Md5sum (opts g) then sortChildren remoteChildren else remoteChildren)
               (if depth \<ge> 1 then depth - 1 else depth) s1 = None)
           = (statChildren n g relToRootPath
               (if Md5sum (opts g) then sortChildren remoteChildren else remoteChildren)
               (if depth \<ge> 1 then depth - 1 else depth) t1 = None)"
          (is "(?cs = None) = (?ct = None)")
          using "2.IH" [OF ro [symmetric] _ _ _ Some Inr, of t1] True by simp
        moreover have "stat (Suc n) g relToRootPath f depth s
            = (case ?cs of None \<Rightarrow> None | Some s2 \<Rightarrow> Some (s2, None))"
          using ro True Some Inr by simp
        moreover have "stat (Suc n) g relToRootPath f depth t
            = (case ?ct of None \<Rightarrow> None | Some s2 \<Rightarrow> Some (s2, None))"
          using rt ee True Some Inr by simp
        ultimately show ?thesis
          by (cases ?cs; cases ?ct) simp_all
      qed
    qed
  qed
next
  case (3 n g relToRootPath depth s)
  then show ?case by simp
next
  case (4 n g relToRootPath child children depth s)
  let ?p = "Clean (relToRootPath @ ''/'' @ Name child)"
  have a: "map_option snd (stat n g ?p child depth s) = map_option snd (stat n g ?p child depth t)"
    using "4.IH"(1) .
  show ?case
  proof (cases "stat n g ?p child depth s")
    case None
    then show ?thesis using a by (auto split: option.splits)
  next
    case (Some res)
    obtain s1 r1 where res: "res = (s1, r1)" by (cases res)
    from a Some res obtain t1 where tt: "stat n g ?p child depth t = Some (t1, r1)"
      by (cases "stat n g ?p child depth t") auto
    have "(statChildren n g relToRootPath children depth s1 = None)
        = (statChildren n g relToRootPath children depth t1 = None)"
      using "4.IH"(2) [OF Some [unfolded res] refl, of t1] .
    then show ?thesis using Some res tt by simp
  qed
qed

section \<open>Returning\<close>

lemma stat_returns:
  "listingsEnd g \<Longrightarrow> 0 \<le> depth \<Longrightarrow> nat depth < n \<Longrightarrow> stat n g relToRootPath f depth s \<noteq> None"
  "listingsEnd g \<Longrightarrow> 0 \<le> depth \<Longrightarrow> nat depth < n \<Longrightarrow> statChildren n g relToRootPath children depth s \<noteq> None"
proof (induction n g relToRootPath f depth s and n g relToRootPath children depth s
    rule: stat_statChildren.induct)
  case (1 g relToRootPath f depth s)
  then show ?case by simp
next
  case (2 n g relToRootPath f depth s)
  obtain s1 e where ro: "renderObject g relToRootPath f s = (s1, e)"
    by (cases "renderObject g relToRootPath f s")
  show ?case
  proof (cases "e = None \<and> depth \<noteq> 0 \<and> IsDir f")
    case False
    then show ?thesis using ro
      by (auto split: option.splits if_splits)
  next
    case True
    from "2.prems"(1) obtain res where
      Some: "collectChildren (FindByParentId (rem g) (Id_file f) (Hidden (opts g))) [] = Some res"
      unfolding listingsEnd_def by blast
    show ?thesis
    proof (cases res)
      case (Inl err)
      then show ?thesis using ro True Some by auto
    next
      case (Inr remoteChildren)
      have d: "1 \<le> depth" "0 \<le> depth - 1" "nat (depth - 1) < n"
        using True "2.prems" by auto
      have "statChildren n g relToRootPath
               (if Md5sum (opts g) then sortChildren remoteChildren else remoteChildren)
               (if depth \<ge> 1 then depth - 1 else depth) s1 \<noteq> None"
        using "2.IH" [OF ro [symmetric] _ _ _ Some Inr "2.prems"(1)] True d by simp
      then obtain s2 where "statChildren n g relToRootPath
               (if Md5sum (opts g) then sortChildren remoteChildren else remoteChildren)
               (if depth \<ge> 1 then depth - 1 else depth) s1 = Some s2"
        by blast
      then have "stat (Suc n) g relToRootPath f depth s = Some (s2, None)"
        using ro True Some Inr by simp
      then show ?thesis by simp
    qed
  qed
next
  case (3 n g relToRootPath depth s)
  then show ?case by simp
next
  case (4 n g relToRootPath child children depth s)
  let ?p = "Clean (relToRootPath @ ''/'' @ Name child)"
  from "4.IH"(1) [OF "4.prems"] obtain s1 r1 where
    st: "stat n g ?p child depth s = Some (s1, r1)" by auto
  show ?case using "4.IH"(2) [OF st _ "4.prems"] st by simp
qed

lemma statChildren_visits:
  "statChildren n g relToRootPath children depth s = Some s' \<Longrightarrow>
     \<forall>c\<in>set children. \<exists>t t' r.
        stat n g (Clean (relToRootPath @ ''/'' @ Name c)) c depth t = Some (t', r)
        \<and> prefix (out s) (out t) \<and> prefix (out t') (out s')"
proof (induction children arbitrary: s)
  case Nil
  show ?case by simp
next
  case (Cons child children)
  let ?p = "\<lambda>c. Clean (relToRootPath @ ''/'' @ Name c)"
  from Cons.prems obtain s1 r1 where
    st: "stat n g (?p child) child depth s = Some (s1, r1)"
    and sc: "statChildren n g relToRootPath children depth s1 = Some s'"
    by (auto split: option.splits)
  have p1: "prefix (out s) (out s1)" using stat_out_prefix(1) [OF st] .
  have p2: "prefix (out s1) (out s')" using stat_out_prefix(2) [OF sc] .
  show ?case
  proof
    fix c assume "c \<in> set (child # children)"
    then consider "c = child" | "c \<in> set children" by auto
    then show "\<exists>t t' r. stat n g (?p c) c depth t = Some (t', r)
        \<and> prefix (out s) (out t) \<and> prefix (out t') (out s')"
    proof cases
      case 1
      then show ?thesis using st p2 by blast
    next
      case 2
      with Cons.IH [OF sc] obtain t t' r where
        "stat n g (?p c) c depth t = Some (t', r)" "prefix (out s1) (out t)"
        "prefix (out t') (out s')" by blast
      then show ?thesis using p1 prefix_order.trans by blast
    qed
  qed
qed

lemma set_sortChildren: "set (sortChildren cs) = set cs"
  by (simp add: sortChildren_def)

section \<open>Errors of the children\<close>

text \<open>
  C4: For a container that is rendered without error and whose page pair drains to the
  close, once the loop over the children has returned, \<^verbatim>\<open>stat\<close> returns nil in the
  state that the loop left. Every child has then been visited: its call returned, with an
  error or without, and its output lies within the output of the parent, so a failing child
  stops neither its siblings nor the parent. With a depth that is not negative and a remote
  whose listings all end, the call does return, within a nesting of the depth plus one.
\<close>

theorem child_errors_not_propagated:
  assumes "renderObject g relToRootPath f s = (s1, None)" and "depth \<noteq> 0" and "IsDir f"
    and "collectChildren (FindByParentId (rem g) (Id_file f) (Hidden (opts g))) []
           = Some (Inr remoteChildren)"
  shows "(\<forall>s2. statChildren n g relToRootPath
                (if Md5sum (opts g) then sortChildren remoteChildren else remoteChildren)
                (if 1 \<le> depth then depth - 1 else depth) s1 = Some s2 \<longrightarrow>
            stat (Suc n) g relToRootPath f depth s = Some (s2, None)
            \<and> (\<forall>c\<in>set remoteChildren. \<exists>t t' r.
                  stat n g (Clean (relToRootPath @ ''/'' @ Name c)) c
                    (if 1 \<le> depth then depth - 1 else depth) t = Some (t', r)
                  \<and> prefix (out s1) (out t) \<and> prefix (out t') (out s2)))
    \<and> (0 \<le> depth \<longrightarrow> listingsEnd g \<longrightarrow>
          (\<exists>s2. stat (Suc (nat depth)) g relToRootPath f depth s = Some (s2, None)))"
proof (intro conjI allI impI)
  fix s2
  assume sc: "statChildren n g relToRootPath
                (if Md5sum (opts g) then sortChildren remoteChildren else remoteChildren)
                (if 1 \<le> depth then depth - 1 else depth) s1 = Some s2"
  show "stat (Suc n) g relToRootPath f depth s = Some (s2, None)"
    using assms sc by simp
  show "\<forall>c\<in>set remoteChildren. \<exists>t t' r.
          stat n g (Clean (relToRootPath @ ''/'' @ Name c)) c
            (if 1 \<le> depth then depth - 1 else depth) t = Some (t', r)
          \<and> prefix (out s1) (out t) \<and> prefix (out t') (out s2)"
    using statChildren_visits [OF sc] by (simp add: set_sortChildren split: if_splits)
next
  assume d: "0 \<le> depth" and le: "listingsEnd g"
  have "stat (Suc (nat depth)) g relToRootPath f depth s \<noteq> None"
    using stat_returns(1) [OF le d, of "Suc (nat depth)"] by simp
  then obtain s2 r where st: "stat (Suc (nat depth)) g relToRootPath f depth s = Some (s2, r)"
    by auto
  have "r = None"
    using st assms by (auto split: option.splits)
  with st show "\<exists>s2. stat (Suc (nat depth)) g relToRootPath f depth s = Some (s2, None)"
    by blast
qed

lemma listingsEnd_example: "listingsEnd (exampleCommands md5 csv)"
  by (simp add: listingsEnd_def exampleCommands_def exampleRemote_def)

theorem child_errors_not_propagated_witness:
  "map_option snd (stat 1 (exampleCommands False False) ''/a/b'' fileB 0 initialState)
      = Some (Some denied)
   \<and> (\<exists>s2. stat 2 (exampleCommands False False) ''/a'' fileA 1 initialState = Some (s2, None))"
proof -
  let ?g = "exampleCommands False False"
  have r: "renderObject ?g ''/a'' fileA initialState
       = (fst (renderObject ?g ''/a'' fileA initialState), None)"
    by (simp add: renderObject_def exampleCommands_def exampleRemote_def fileA_def
          exampleFile_def split: prod.splits)
  have c: "collectChildren (FindByParentId (rem ?g) (Id_file fileA) (Hidden (opts ?g))) []
       = Some (Inr [fileB, fileC])"
    by (simp add: exampleCommands_def exampleRemote_def fileA_def exampleFile_def)
  have d: "IsDir fileA" by (simp add: fileA_def exampleFile_def)
  have b: "map_option snd (stat 1 ?g ''/a/b'' fileB 0 initialState) = Some (Some denied)"
    by (simp add: renderObject_def exampleCommands_def exampleRemote_def fileB_def
          exampleFile_def split: prod.splits)
  have n: "(1::int) \<noteq> 0" and z: "(0::int) \<le> 1" by simp_all
  have "\<exists>s2. stat (Suc (nat 1)) ?g ''/a'' fileA 1 initialState = Some (s2, None)"
    using child_errors_not_propagated [OF r n d c, where n = 1] z
      listingsEnd_example [of False False]
    by blast
  moreover have "Suc (nat 1) = 2" by simp
  ultimately show ?thesis using b by (simp del: stat.simps add: numeral_2_eq_2)
qed

section \<open>The order of the children\<close>

lemma sorted_sortChildren:
  "sorted_wrt (\<lambda>a b. Md5Checksum a < Md5Checksum b
                     \<or> (Md5Checksum a = Md5Checksum b \<and> Name a \<le> Name b))
     (sortChildren cs)"
proof -
  have "sorted (map (\<lambda>f. (Md5Checksum f, Name f)) (sortChildren cs))"
    by (simp add: sortChildren_def)
  then have "sorted_wrt (\<lambda>a b. Md5Checksum a < Md5Checksum b
                     \<or> (Md5Checksum a \<le> Md5Checksum b \<and> Name a \<le> Name b))
     (sortChildren cs)"
    by (simp add: sorted_map less_eq_prod_def)
  then show ?thesis
    by (rule sorted_wrt_mono_rel [rotated]) (auto dest: le_imp_less_or_eq)
qed

text \<open>
  C7: When the page pair of a container reaches the close, the children collected are exactly
  those delivered on the data channel, in the order of their delivery. \<^verbatim>\<open>stat\<close> then runs
  the loop over them in that order, except in checksum mode, where it runs the loop over the
  sorted list: ordered by checksum first and by name among equal checksums, and a
  rearrangement of the children delivered.
\<close>

theorem children_order:
  assumes "\<forall>r\<in>set pre. continues r"
    and "FindByParentId (rem g) (Id_file f) (Hidden (opts g)) = pre @ ChildClosed # rest"
    and "renderObject g relToRootPath f s = (s1, None)" and "depth \<noteq> 0" and "IsDir f"
  shows "stat (Suc n) g relToRootPath f depth s
      = map_option (\<lambda>s2. (s2, None))
          (statChildren n g relToRootPath
             (if Md5sum (opts g) then sortChildren (delivered pre) else delivered pre)
             (if 1 \<le> depth then depth - 1 else depth) s1)
    \<and> sorted_wrt (\<lambda>a b. Md5Checksum a < Md5Checksum b
                       \<or> (Md5Checksum a = Md5Checksum b \<and> Name a \<le> Name b))
        (sortChildren (delivered pre))
    \<and> mset (sortChildren (delivered pre)) = mset (delivered pre)"
proof -
  have c: "collectChildren (FindByParentId (rem g) (Id_file f) (Hidden (opts g))) []
      = Some (Inr (delivered pre))"
    using collectChildren_closed [OF assms(1), of rest "[]"] assms(2) by simp
  have "stat (Suc n) g relToRootPath f depth s
      = map_option (\<lambda>s2. (s2, None))
          (statChildren n g relToRootPath
             (if Md5sum (opts g) then sortChildren (delivered pre) else delivered pre)
             (if 1 \<le> depth then depth - 1 else depth) s1)"
    using assms(3-5) c by (simp add: map_option_case)
  moreover have "mset (sortChildren (delivered pre)) = mset (delivered pre)"
    by (simp add: sortChildren_def)
  ultimately show ?thesis using sorted_sortChildren by simp
qed

theorem children_order_witness:
  "stat 2 (exampleCommands True False) ''a'' fileA 1 initialState
     = Some (\<lparr>out = [checksumLine ''aa'' ''a/c'',
                      checksumLine ''deadbeef'' ''a/b''],
              firstLine = True\<rparr>, None)"
proof -
  let ?g = "exampleCommands True False"
  have k: "\<forall>r\<in>set [ChildRecv fileB, ErrRecv None, ChildRecv fileC]. continues r" by simp
  have l: "FindByParentId (rem ?g) (Id_file fileA) (Hidden (opts ?g))
      = [ChildRecv fileB, ErrRecv None, ChildRecv fileC] @ ChildClosed # []"
    by (simp add: exampleCommands_def exampleRemote_def fileA_def exampleFile_def)
  have r: "renderObject ?g ''a'' fileA initialState = (initialState, None)"
    by (simp add: renderObject_def exampleCommands_def fileA_def exampleFile_def)
  have d: "IsDir fileA" by (simp add: fileA_def exampleFile_def)
  have z: "(1::int) \<noteq> 0" by simp
  have m: "Md5sum (opts ?g)" by (simp add: exampleCommands_def)
  have s: "sortChildren [fileB, fileC] = [fileC, fileB]"
    by (simp add: sortChildren_def fileB_def fileC_def exampleFile_def)
  have pb: "Clean ''a/b'' = ''a/b''" and pc: "Clean ''a/c'' = ''a/c''"
    by (simp_all add: Clean_def)
  have rc: "renderObject ?g ''a/c'' fileC initialState
      = (\<lparr>out = [checksumLine ''aa'' ''a/c''], firstLine = True\<rparr>, None)"
    by (simp add: renderObject_def exampleCommands_def fileC_def exampleFile_def
          Logf_def initialState_def)
  have rb: "renderObject ?g ''a/b'' fileB
        \<lparr>out = [checksumLine ''aa'' ''a/c''], firstLine = True\<rparr>
      = (\<lparr>out = [checksumLine ''aa'' ''a/c'',
                   checksumLine ''deadbeef'' ''a/b''],
           firstLine = True\<rparr>, None)"
    by (simp add: renderObject_def exampleCommands_def fileB_def exampleFile_def
          Logf_def)
  have nb: "Name fileB = ''b''" and nc: "Name fileC = ''c''"
    by (simp_all add: fileB_def fileC_def exampleFile_def)
  have c: "statChildren (Suc 0) ?g ''a'' [fileC, fileB] 0 initialState
      = Some \<lparr>out = [checksumLine ''aa'' ''a/c'',
                     checksumLine ''deadbeef'' ''a/b''],
             firstLine = True\<rparr>"
    by (simp add: nb nc pb pc rb rc)
  have "stat (Suc (Suc 0)) ?g ''a'' fileA 1 initialState
      = map_option (\<lambda>s2. (s2, None))
          (statChildren (Suc 0) ?g ''a'' [fileC, fileB] 0 initialState)"
    using children_order [OF k l r z d, of "Suc 0"] m s
    by (simp del: stat.simps statChildren.simps)
  then show ?thesis
    by (simp only: c numeral_2_eq_2 option.map)
qed

section \<open>Where the output of a call starts\<close>

lemma stat_out_starts:
  assumes "stat n g relToRootPath f depth s = Some (s', r)"
  shows "prefix (out (fst (renderObject g relToRootPath f s))) (out s')"
proof (cases n)
  case 0
  with assms show ?thesis by simp
next
  case (Suc m)
  obtain s1 e where ro: "renderObject g relToRootPath f s = (s1, e)"
    by (cases "renderObject g relToRootPath f s")
  show ?thesis
  proof (cases "s' = s1")
    case True
    then show ?thesis using ro by simp
  next
    case False
    with assms Suc ro obtain children d where
      "statChildren m g relToRootPath children d s1 = Some s'"
      by (auto split: option.splits if_splits sum.splits)
    then show ?thesis using stat_out_prefix(2) ro by simp
  qed
qed

lemma statLoop_out_prefix:
  "statLoop n g fname fn srcs (s, err) = Some (s', err') \<Longrightarrow> prefix (out s) (out s')"
proof (induction srcs arbitrary: s err)
  case Nil
  then show ?case by simp
next
  case (Cons src srcs)
  show ?case
  proof (cases "fn src")
    case (Inl fErr)
    then show ?thesis using Cons by simp
  next
    case (Inr f)
    with Cons.prems obtain s1 r e1 where
      st: "stat n g (statTarget g src f) f (Depth (opts g)) s = Some (s1, r)"
      and lp: "statLoop n g fname fn srcs (s1, e1) = Some (s', err')"
      by (auto split: option.splits)
    show ?thesis
      using stat_out_prefix(1) [OF st] Cons.IH [OF lp] by (rule prefix_order.trans)
  qed
qed

section \<open>CSV mode\<close>

lemma csvHeader_not_in_row: "csvHeader \<notin> set (prettyFilePermission perm f)"
proof -
  have "last csvHeader = newline" by (simp add: csvHeader_def)
  moreover have "last (padRight 60 (Name f) @ '','' @ padRight 10 (dirTypeOf f) @ '',''
        @ padRight 25 (Name_perm perm) @ '','' @ padRight 25 (EmailAddress perm) @ [tab, tab])
      = tab"
    by simp
  moreover have "tab \<noteq> newline" by (simp add: tab_def newline_def)
  ultimately have "csvHeader \<noteq> padRight 60 (Name f) @ '','' @ padRight 10 (dirTypeOf f) @ '',''
        @ padRight 25 (Name_perm perm) @ '','' @ padRight 25 (EmailAddress perm) @ [tab, tab]"
    by metis
  then show ?thesis
    by (simp add: prettyFilePermission_def csvHeader_def)
qed

lemma count_rows:
  "count_list (concat (map (\<lambda>perm. prettyFilePermission perm f) perms)) csvHeader = 0"
  by (simp add: csvHeader_not_in_row)

lemma renderObject_csv:
  assumes "CsvOutput (opts g)" and "\<not> Md5sum (opts g)"
  shows "out (fst (renderObject g relToRootPath f s))
      = out s @ (if firstLine s then [csvHeader] else [])
          @ concat (map (\<lambda>perm. prettyFilePermission perm f)
              (fst (listPermissions (rem g) (Id_file f))))"
    and "\<not> firstLine (fst (renderObject g relToRootPath f s))"
    and "snd (renderObject g relToRootPath f s) = None"
  using assms
  by (auto simp: renderObject_def Let_def Logf_def fold_Logfs_out fold_Logfs_firstLine
        split: prod.splits)

lemma renderObject_csv_count:
  assumes "CsvOutput (opts g)" and "\<not> Md5sum (opts g)"
  shows "count_list (out (fst (renderObject g relToRootPath f s))) csvHeader
      = count_list (out s) csvHeader + (if firstLine s then 1 else 0)"
  by (simp add: renderObject_csv(1) [OF assms] count_rows)

lemma stat_csv:
  assumes csv: "CsvOutput (opts g)" "\<not> Md5sum (opts g)"
  shows "stat n g relToRootPath f depth s = Some (s', r) \<Longrightarrow>
      count_list (out s') csvHeader = count_list (out s) csvHeader + (if firstLine s then 1 else 0)
      \<and> \<not> firstLine s'"
    and "statChildren n g relToRootPath children depth s = Some s' \<Longrightarrow> \<not> firstLine s \<Longrightarrow>
      count_list (out s') csvHeader = count_list (out s) csvHeader \<and> \<not> firstLine s'"
  using csv
proof (induction n g relToRootPath f depth s and n g relToRootPath children depth s
    arbitrary: s' r and s' rule: stat_statChildren.induct)
  case (1 g relToRootPath f depth s)
  then show ?case by simp
next
  case (2 n g relToRootPath f depth s)
  note csv' = "2.prems"(2,3)
  obtain s1 e where ro: "renderObject g relToRootPath f s = (s1, e)"
    by (cases "renderObject g relToRootPath f s")
  have e: "e = None" using renderObject_csv(3) [OF csv', of relToRootPath f s] ro by simp
  have c1: "count_list (out s1) csvHeader
      = count_list (out s) csvHeader + (if firstLine s then 1 else 0)"
    using renderObject_csv_count [OF csv', of relToRootPath f s] ro by simp
  have f1: "\<not> firstLine s1"
    using renderObject_csv(2) [OF csv', of relToRootPath f s] ro by simp
  show ?case
  proof (cases "s' = s1")
    case True
    then show ?thesis using c1 f1 by simp
  next
    case False
    with "2.prems"(1) ro e obtain remoteChildren where
      dd: "depth \<noteq> 0" "IsDir f"
      and cc: "collectChildren (FindByParentId (rem g) (Id_file f) (Hidden (opts g))) []
          = Some (Inr remoteChildren)"
      and sc: "statChildren n g relToRootPath
          (if Md5sum (opts g) then sortChildren remoteChildren else remoteChildren)
          (if depth \<ge> 1 then depth - 1 else depth) s1 = Some s'"
      by (auto split: option.splits if_splits sum.splits)
    have "count_list (out s') csvHeader = count_list (out s1) csvHeader \<and> \<not> firstLine s'"
      using "2.IH" [OF ro [symmetric] _ _ _ cc _ sc f1 csv'] dd e by simp
    then show ?thesis using c1 by simp
  qed
next
  case (3 n g relToRootPath depth s)
  then show ?case by simp
next
  case (4 n g relToRootPath child children depth s)
  note csv' = "4.prems"(3,4)
  from "4.prems"(1) obtain s1 r1 where
    st: "stat n g (Clean (relToRootPath @ ''/'' @ Name child)) child depth s = Some (s1, r1)"
    and sc: "statChildren n g relToRootPath children depth s1 = Some s'"
    by (auto split: option.splits)
  have a: "count_list (out s1) csvHeader = count_list (out s) csvHeader" "\<not> firstLine s1"
    using "4.IH"(1) [OF st csv'] "4.prems"(2) by simp_all
  have "count_list (out s') csvHeader = count_list (out s1) csvHeader \<and> \<not> firstLine s'"
    using "4.IH"(2) [OF st refl sc a(2) csv'] .
  then show ?case using a by simp
qed

lemma statLoop_csv:
  assumes csv: "CsvOutput (opts g)" "\<not> Md5sum (opts g)"
  shows "statLoop n g fname fn srcs (s, err) = Some (s', err') \<Longrightarrow>
      count_list (out s') csvHeader
        = count_list (out s) csvHeader
          + (if firstLine s \<and> (\<exists>src\<in>set srcs. \<exists>f. fn src = Inr f) then 1 else 0)
      \<and> (firstLine s' \<longleftrightarrow> firstLine s \<and> \<not> (\<exists>src\<in>set srcs. \<exists>f. fn src = Inr f))"
proof (induction srcs arbitrary: s err)
  case Nil
  then show ?case by simp
next
  case (Cons src srcs)
  show ?case
  proof (cases "fn src")
    case (Inl fErr)
    then show ?thesis using Cons by simp
  next
    case (Inr f)
    with Cons.prems obtain s1 r e1 where
      st: "stat n g (statTarget g src f) f (Depth (opts g)) s = Some (s1, r)"
      and lp: "statLoop n g fname fn srcs (s1, e1) = Some (s', err')"
      by (auto split: option.splits)
    show ?thesis
      using stat_csv(1) [OF csv st] Cons.IH [OF lp] Inr by auto
  qed
qed

lemma statLoop_returns:
  assumes "listingsEnd g" and "0 \<le> Depth (opts g)" and "nat (Depth (opts g)) < n"
  shows "statLoop n g fname fn srcs (s, err) \<noteq> None"
proof (induction srcs arbitrary: s err)
  case Nil
  show ?case by simp
next
  case (Cons src srcs)
  show ?case
  proof (cases "fn src")
    case (Inl fErr)
    then show ?thesis using Cons by simp
  next
    case (Inr f)
    obtain s1 r where
      st: "stat n g (statTarget g src f) f (Depth (opts g)) s = Some (s1, r)"
      using stat_returns(1) [OF assms, of "statTarget g src f" f s] by auto
    show ?thesis using Inr st Cons by (cases r) simp_all
  qed
qed

text \<open>
  C6: The package variable \<^verbatim>\<open>firstLine\<close> is true in a fresh process. In CSV mode a call
  of \<^verbatim>\<open>stat\<close> that starts with the variable true writes the header as the first thing it
  writes; every call leaves the variable false, and a call that starts with it false writes
  no header. So the number of headers in the output grows by one in the first call and by
  nothing afterwards, over all objects and permissions of a run of \<^verbatim>\<open>statfn\<close> and over later
  runs in the same process.
\<close>

theorem csv_header_once:
  assumes "CsvOutput (opts g)" and "\<not> Md5sum (opts g)"
  shows "firstLine initialState
    \<and> (\<forall>s' r. stat n g relToRootPath f depth s = Some (s', r) \<longrightarrow>
          count_list (out s') csvHeader
            = count_list (out s) csvHeader + (if firstLine s then 1 else 0)
          \<and> \<not> firstLine s'
          \<and> (firstLine s \<longrightarrow> prefix (out s @ [csvHeader]) (out s')))
    \<and> (\<forall>s' err'. statLoop n g fname fn srcs (s, err) = Some (s', err') \<longrightarrow>
          count_list (out s') csvHeader
            = count_list (out s) csvHeader
              + (if firstLine s \<and> (\<exists>src\<in>set srcs. \<exists>f. fn src = Inr f) then 1 else 0)
          \<and> (firstLine s' \<longleftrightarrow> firstLine s \<and> \<not> (\<exists>src\<in>set srcs. \<exists>f. fn src = Inr f)))"
proof (intro conjI allI impI)
  show "firstLine initialState" by (simp add: initialState_def)
next
  fix s' r
  assume st: "stat n g relToRootPath f depth s = Some (s', r)"
  show "count_list (out s') csvHeader
      = count_list (out s) csvHeader + (if firstLine s then 1 else 0)"
    and "\<not> firstLine s'"
    using stat_csv(1) [OF assms st] by simp_all
  show "prefix (out s @ [csvHeader]) (out s')" if "firstLine s"
  proof -
    have "prefix (out s @ [csvHeader]) (out (fst (renderObject g relToRootPath f s)))"
      using that by (simp add: renderObject_csv(1) [OF assms])
    then show ?thesis using stat_out_starts [OF st] by (rule prefix_order.trans)
  qed
next
  fix s' err'
  assume lp: "statLoop n g fname fn srcs (s, err) = Some (s', err')"
  show "count_list (out s') csvHeader
      = count_list (out s) csvHeader
        + (if firstLine s \<and> (\<exists>src\<in>set srcs. \<exists>f. fn src = Inr f) then 1 else 0)"
    and "firstLine s' \<longleftrightarrow> firstLine s \<and> \<not> (\<exists>src\<in>set srcs. \<exists>f. fn src = Inr f)"
    using statLoop_csv [OF assms lp] by simp_all
qed

theorem csv_header_once_witness:
  "\<exists>s1 e1 s2 e2.
      statfn 2 (exampleCommands False True) ''stat'' exampleResolve initialState = Some (s1, e1)
    \<and> statfn 2 (exampleCommands False True) ''stat'' exampleResolve s1 = Some (s2, e2)
    \<and> count_list (out s1) csvHeader = 1 \<and> hd (out s1) = csvHeader
    \<and> count_list (out s2) csvHeader = 1"
proof -
  let ?g = "exampleCommands False True"
  let ?srcs = "[''good'', ''bad1'', ''bad2'']"
  have csv: "CsvOutput (opts ?g)" "\<not> Md5sum (opts ?g)"
    by (simp_all add: exampleCommands_def)
  have d: "0 \<le> Depth (opts ?g)" "nat (Depth (opts ?g)) < 2"
    by (simp_all add: exampleCommands_def)
  have src: "Sources (opts ?g) = ?srcs" by (simp add: exampleCommands_def)
  have good: "\<exists>src\<in>set ?srcs. \<exists>f. exampleResolve src = Inr f"
    by (simp add: exampleResolve_def)
  obtain s1 e1 where
    1: "statLoop 2 ?g ''stat'' exampleResolve ?srcs (initialState, None) = Some (s1, e1)"
    using statLoop_returns [OF listingsEnd_example [of False True] d,
        where fname = "''stat''" and fn = exampleResolve and srcs = ?srcs
        and s = initialState and err = None]
    by auto
  obtain s2 e2 where
    2: "statLoop 2 ?g ''stat'' exampleResolve ?srcs (s1, None) = Some (s2, e2)"
    using statLoop_returns [OF listingsEnd_example [of False True] d,
        where fname = "''stat''" and fn = exampleResolve and srcs = ?srcs
        and s = s1 and err = None]
    by auto
  have rs: "exampleResolve ''good'' = Inr fileA" by (simp add: exampleResolve_def)
  have tg: "statTarget ?g ''good'' fileA = ''good''"
    by (simp add: statTarget_def exampleCommands_def)
  obtain s0 r0 where
    3: "stat 2 ?g ''good'' fileA (Depth (opts ?g)) initialState = Some (s0, r0)"
    using stat_returns(1) [OF listingsEnd_example [of False True] d,
        where relToRootPath = "''good''" and f = fileA and s = initialState]
    by auto
  have step: "statLoop 2 ?g ''stat'' exampleResolve (''good'' # rest) (initialState, None)
      = statLoop 2 ?g ''stat'' exampleResolve rest
          (s0, case r0 of None \<Rightarrow> None
               | Some fErr \<Rightarrow> copyErrStatusCode
                   (reComposeError None (failureMsg ''stat'' ''good'' fErr)) fErr)" for rest
    using rs tg 3 by (cases r0) (simp_all del: stat.simps)
  have 4: "statLoop 2 ?g ''stat'' exampleResolve [''bad1'', ''bad2'']
          (s0, case r0 of None \<Rightarrow> None
               | Some fErr \<Rightarrow> copyErrStatusCode
                   (reComposeError None (failureMsg ''stat'' ''good'' fErr)) fErr)
      = Some (s1, e1)"
    using 1 by (simp only: step)
  note h1 = csv_header_once [OF csv, where n = 2 and fname = "''stat''" and fn = exampleResolve
      and srcs = ?srcs and s = initialState and err = None and f = fileA
      and relToRootPath = "''good''" and depth = "Depth (opts ?g)"]
  note h2 = csv_header_once [OF csv, where n = 2 and fname = "''stat''" and fn = exampleResolve
      and srcs = ?srcs and s = s1 and err = None]
  have i: "firstLine initialState" "out initialState = []"
    by (simp_all add: initialState_def)
  have c1: "count_list (out s1) csvHeader = 1" and f1: "\<not> firstLine s1"
    using h1 [THEN conjunct2, THEN conjunct2, rule_format, OF 1] good i by simp_all
  have c2: "count_list (out s2) csvHeader = 1"
    using h2 [THEN conjunct2, THEN conjunct2, rule_format, OF 2] c1 f1 by simp
  have "prefix [csvHeader] (out s0)"
    using h1 [THEN conjunct2, THEN conjunct1, rule_format, OF 3] i by simp
  then have "prefix [csvHeader] (out s1)"
    using statLoop_out_prefix [OF 4] by (rule prefix_order.trans)
  then have h: "hd (out s1) = csvHeader"
    by (auto simp: prefix_def)
  have "statfn 2 ?g ''stat'' exampleResolve initialState = Some (s1, e1)"
    and "statfn 2 ?g ''stat'' exampleResolve s1 = Some (s2, e2)"
    using 1 2 by (simp_all only: statfn_def src)
  then show ?thesis
    using c1 c2 h by blast
qed

text \<open>
  C9, as amended: For each permission of the object, \<^verbatim>\<open>prettyFilePermission\<close> writes one
  row: the name of the object padded on the right to 60 characters, a comma, the type tag
  \<^verbatim>\<open>file\<close> or \<^verbatim>\<open>folder\<close> padded on the right to 10, a comma, the display name and the
  address of the permission, each padded on the right to 25 and with a comma between them,
  two tab characters, a comma, the role padded to 25, a comma, the account type padded to
  25, and a newline. In CSV mode the object adds to the output the header, if it is still
  due, and then these rows, one per permission, in the order of the permissions.
\<close>

theorem csv_row_format:
  "concat (prettyFilePermission perm f)
      = padRight 60 (Name f) @ '','' @ padRight 10 (if IsDir f then ''folder'' else ''file'')
        @ '','' @ padRight 25 (Name_perm perm) @ '','' @ padRight 25 (EmailAddress perm)
        @ [CHR 0x09, CHR 0x09] @ '','' @ padRight 25 (Role perm) @ '',''
        @ padRight 25 (Type_perm perm) @ [CHR 0x0A]
   \<and> (CsvOutput (opts g) \<longrightarrow> \<not> Md5sum (opts g) \<longrightarrow>
        out (fst (renderObject g relToRootPath f s))
          = out s @ (if firstLine s then [csvHeader] else [])
            @ concat (map (\<lambda>perm. prettyFilePermission perm f)
                (fst (listPermissions (rem g) (Id_file f)))))"
  using renderObject_csv(1) [of g relToRootPath f s]
  by (simp add: prettyFilePermission_def dirTypeOf_def tab_def newline_def)

theorem csv_row_format_witness:
  "out (fst (renderObject (exampleCommands False True) ''/a'' fileA initialState))
     = [csvHeader] @ prettyFilePermission alice fileA @ prettyFilePermission bob fileA"
  using csv_row_format [where g = "exampleCommands False True" and f = fileA
      and relToRootPath = "''/a''" and s = initialState]
  by (simp add: exampleCommands_def exampleRemote_def fileA_def exampleFile_def initialState_def)

text \<open>
  C9, as the claim words it, fails: the row of a permission contains tab characters between
  the address and the role, and the name of the object comes first with its padding after
  it, so the row is not the six fields with only commas between them.
\<close>

theorem csv_row_has_tabs:
  "tab \<in> set (concat (prettyFilePermission alice fileA))
   \<and> tab \<notin> set (specCsvRow alice fileA)
   \<and> take 2 (concat (prettyFilePermission alice fileA)) = ''a ''
   \<and> concat (prettyFilePermission alice fileA) \<noteq> specCsvRow alice fileA"
proof -
  have 1: "tab \<in> set (concat (prettyFilePermission alice fileA))"
    by (simp add: prettyFilePermission_def)
  have 2: "tab \<notin> set (specCsvRow alice fileA)"
    by (simp add: specCsvRow_def padLeft_def dirTypeOf_def alice_def fileA_def exampleFile_def
          tab_def newline_def)
  have 3: "take 2 (concat (prettyFilePermission alice fileA)) = ''a ''"
    by (simp add: prettyFilePermission_def padRight_def fileA_def exampleFile_def
          numeral_eq_Suc)
  from 1 2 have "concat (prettyFilePermission alice fileA) \<noteq> specCsvRow alice fileA"
    by metis
  with 1 2 3 show ?thesis by simp
qed

section \<open>The rows of a container\<close>

lemma prefix_before_space:
  "CHR '' '' \<notin> set k' \<Longrightarrow> prefix k' (k @ CHR '' '' # rest) \<longleftrightarrow> prefix k' k"
proof (induction k arbitrary: k')
  case Nil
  then show ?case by (cases k') auto
next
  case (Cons a k)
  then show ?case by (cases k') auto
qed

lemma kvRow_prefix:
  "CHR '' '' \<notin> set k' \<Longrightarrow> prefix k' (kvRow (k, v)) \<longleftrightarrow> prefix k' k"
proof -
  assume a: "CHR '' '' \<notin> set k'"
  have "kvRow (k, v)
      = k @ CHR '' '' # (replicate (25 - length k) CHR '' '' @ padRight 30 v @ [newline])"
    by (simp add: kvRow_def padRight_def replicate_append_same)
  then show ?thesis using prefix_before_space [OF a] by simp
qed

lemma fileStat_keys:
  "map fst (fileStatKvList l f)
     = [''Filename'', ''FileId'', ''Bytes'', ''Size'', ''QuotaBytesUsed'', ''DirType'',
        ''VersionNumber'', ''MimeType'', ''Etag'', ''ModTime'', ''LastViewedByMe'', ''Shared'',
        ''Owners'', ''LastModifyingUsername'']
       @ (if Description f \<noteq> [] then [''Description''] else [])
       @ (if Name f \<noteq> OriginalFilename f then [''OriginalFilename''] else [])
       @ (if \<not> IsDir f then [''Md5Checksum'', ''Copyable''] else [])
       @ (if Labels f \<noteq> None then [''Starred'', ''Viewed'', ''Trashed'', ''ViewersCanDownload'']
          else [])"
  by (simp add: fileStatKvList_def split: option.splits)

lemma fileStat_rows:
  assumes "CHR '' '' \<notin> set k'" and "k' \<noteq> []" and "hd k' \<noteq> newline"
  shows "(\<exists>row\<in>set (prettyFileStat l relToRootPath f). prefix k' row)
     \<longleftrightarrow> (\<exists>k\<in>set (map fst (fileStatKvList l f)). prefix k' k)"
proof -
  have "\<not> prefix k' (pathHeader relToRootPath)"
    using assms(2,3) by (cases k') (auto simp: pathHeader_def)
  moreover have "(\<exists>row\<in>set (map kvRow (fileStatKvList l f)). prefix k' row)
      \<longleftrightarrow> (\<exists>k\<in>set (map fst (fileStatKvList l f)). prefix k' k)"
    using kvRow_prefix [OF assms(1)] by (force simp: image_iff)
  ultimately show ?thesis by (simp add: prettyFileStat_def)
qed

text \<open>
  C8: The verbose block of an object has a row that starts with \<^verbatim>\<open>Md5Checksum\<close>, and one
  that starts with \<^verbatim>\<open>Copyable\<close>, exactly when the object is not a container: the report of
  a container has neither. In checksum mode a container, which by the data model has no
  checksum, writes no line: rendering it leaves the state as it was, and all that its call
  of \<^verbatim>\<open>stat\<close> writes comes from the loop over its children.
\<close>

theorem container_rows:
  "((\<exists>row\<in>set (prettyFileStat l relToRootPath f). prefix ''Md5Checksum'' row) \<longleftrightarrow> \<not> IsDir f)
   \<and> ((\<exists>row\<in>set (prettyFileStat l relToRootPath f). prefix ''Copyable'' row) \<longleftrightarrow> \<not> IsDir f)
   \<and> (IsDir f \<longrightarrow> containerWithoutChecksum f \<longrightarrow> Md5sum (opts g) \<longrightarrow>
        renderObject g relToRootPath f s = (s, None)
        \<and> stat (Suc n) g relToRootPath f depth s
          = (if depth = 0 then Some (s, None)
             else
               (case collectChildren
                       (FindByParentId (rem g) (Id_file f) (Hidden (opts g))) [] of
                  None \<Rightarrow> None
                | Some (Inl err) \<Rightarrow> Some (s, Some err)
                | Some (Inr children) \<Rightarrow>
                    map_option (\<lambda>s2. (s2, None))
                      (statChildren n g relToRootPath (sortChildren children)
                         (if 1 \<le> depth then depth - 1 else depth) s))))"
proof -
  have 1: "(\<exists>row\<in>set (prettyFileStat l relToRootPath f). prefix ''Md5Checksum'' row)
      \<longleftrightarrow> \<not> IsDir f"
    by (subst fileStat_rows) (auto simp: fileStat_keys newline_def)
  have 2: "(\<exists>row\<in>set (prettyFileStat l relToRootPath f). prefix ''Copyable'' row)
      \<longleftrightarrow> \<not> IsDir f"
    by (subst fileStat_rows) (auto simp: fileStat_keys newline_def)
  have 3: "renderObject g relToRootPath f s = (s, None)
        \<and> stat (Suc n) g relToRootPath f depth s
          = (if depth = 0 then Some (s, None)
             else
               (case collectChildren
                       (FindByParentId (rem g) (Id_file f) (Hidden (opts g))) [] of
                  None \<Rightarrow> None
                | Some (Inl err) \<Rightarrow> Some (s, Some err)
                | Some (Inr children) \<Rightarrow>
                    map_option (\<lambda>s2. (s2, None))
                      (statChildren n g relToRootPath (sortChildren children)
                         (if 1 \<le> depth then depth - 1 else depth) s)))"
    if "IsDir f" and "containerWithoutChecksum f" and "Md5sum (opts g)"
  proof -
    have r: "renderObject g relToRootPath f s = (s, None)"
      using that by (simp add: renderObject_def containerWithoutChecksum_def)
    show ?thesis
      using r that(1,3) by (simp add: map_option_case split: option.splits sum.splits)
  qed
  from 1 2 3 show ?thesis by blast
qed

theorem container_rows_witness:
  "IsDir fileA \<and> containerWithoutChecksum fileA
   \<and> \<not> (\<exists>row\<in>set (prettyFileStat exampleLib ''/a'' fileA). prefix ''Md5Checksum'' row)
   \<and> \<not> (\<exists>row\<in>set (prettyFileStat exampleLib ''/a'' fileA). prefix ''Copyable'' row)
   \<and> stat 1 (exampleCommands True False) ''/a'' fileA 0 initialState
     = Some (initialState, None)"
proof -
  have d: "IsDir fileA" and m: "containerWithoutChecksum fileA"
    by (simp_all add: fileA_def exampleFile_def containerWithoutChecksum_def)
  have o: "Md5sum (opts (exampleCommands True False))" by (simp add: exampleCommands_def)
  note th = container_rows [of exampleLib "''/a''" fileA "exampleCommands True False"
      initialState 0 0]
  have "stat (Suc 0) (exampleCommands True False) ''/a'' fileA 0 initialState
      = Some (initialState, None)"
    using th d m o by (simp del: stat.simps)
  then have "stat 1 (exampleCommands True False) ''/a'' fileA 0 initialState
      = Some (initialState, None)"
    by (simp del: stat.simps)
  then show ?thesis
    using th d m by blast
qed

section \<open>Aggregating the failures of the sources\<close>

lemma joinLines_snoc:
  "joinLines (ms @ [m]) = (if ms = [] then m else joinLines ms @ [newline] @ m)"
  by (induction ms rule: joinLines.induct) simp_all

lemma sublist_joinLines: "m \<in> set ms \<Longrightarrow> sublist m (joinLines ms)"
proof (induction ms rule: joinLines.induct)
  case 1
  then show ?case by simp
next
  case (2 m')
  then show ?case by simp
next
  case (3 m' v va)
  show ?case
  proof (cases "m = m'")
    case True
    then show ?thesis by (simp add: sublist_append_rightI prefix_imp_sublist)
  next
    case False
    with 3 have "sublist m (joinLines (v # va))" by simp
    moreover have "sublist (joinLines (v # va)) ((m' @ [newline]) @ joinLines (v # va))"
      by (rule sublist_append_leftI)
    ultimately have "sublist m ((m' @ [newline]) @ joinLines (v # va))"
      by (rule sublist_order.order.trans)
    then show ?thesis by simp
  qed
qed

lemma foldl_recordFailure:
  "fs \<noteq> [] \<Longrightarrow>
     \<exists>e. foldl (recordFailure fname) None fs = Some e
       \<and> errMessage e = joinLines (map (\<lambda>fl. failureMsg fname (fst fl) (snd fl)) fs)
       \<and> statusCode e = statusCode (snd (last fs))"
proof (induction fs rule: rev_induct)
  case Nil
  then show ?case by simp
next
  case (snoc x xs)
  show ?case
  proof (cases "xs = []")
    case True
    then show ?thesis
      by (simp add: recordFailure_def reComposeError_def copyErrStatusCode_def)
  next
    case False
    with snoc.IH obtain e where
      e: "foldl (recordFailure fname) None xs = Some e"
        "errMessage e = joinLines (map (\<lambda>fl. failureMsg fname (fst fl) (snd fl)) xs)"
      by blast
    have "foldl (recordFailure fname) None (xs @ [x]) = recordFailure fname (Some e) x"
      using e(1) by simp
    moreover have "recordFailure fname (Some e) x
        = Some (e\<lparr>errMessage := errMessage e @ [newline] @ failureMsg fname (fst x) (snd x),
                   statusCode := statusCode (snd x)\<rparr>)"
      by (simp add: recordFailure_def reComposeError_def copyErrStatusCode_def)
    ultimately show ?thesis
      using e(2) False by (simp add: joinLines_snoc)
  qed
qed

lemma sourceFailure_stat:
  assumes "fn src = Inr f"
    and "stat n g (statTarget g src f) f (Depth (opts g)) s = Some (s1, r)"
  shows "sourceFailure n g fn src = map_option (\<lambda>fErr. (statTarget g src f, fErr)) r"
proof -
  have "map_option snd (stat n g (statTarget g src f) f (Depth (opts g)) initialState)
      = Some r"
    using stat_result_independent(1) [of n g "statTarget g src f" f "Depth (opts g)"
        initialState s] assms(2)
    by simp
  then obtain s0 where
    "stat n g (statTarget g src f) f (Depth (opts g)) initialState = Some (s0, r)"
    by auto
  then show ?thesis using assms(1) by (cases r) (simp_all add: sourceFailure_def)
qed

lemma statLoop_failures:
  "statLoop n g fname fn srcs (s, err) = Some (s', err') \<Longrightarrow>
     err' = foldl (recordFailure fname) err (List.map_filter (sourceFailure n g fn) srcs)"
proof (induction srcs arbitrary: s err)
  case Nil
  then show ?case by simp
next
  case (Cons src srcs)
  show ?case
  proof (cases "fn src")
    case (Inl fErr)
    then have "sourceFailure n g fn src = Some (src, fErr)"
      by (simp add: sourceFailure_def)
    then show ?thesis using Cons Inl
      by (simp add: recordFailure_def)
  next
    case (Inr f)
    with Cons.prems obtain s1 r where
      st: "stat n g (statTarget g src f) f (Depth (opts g)) s = Some (s1, r)"
      by (auto split: option.splits)
    note sf = sourceFailure_stat [where fn = fn and src = src, OF Inr st]
    show ?thesis
    proof (cases r)
      case None
      then show ?thesis using Cons Inr st sf
        by simp
    next
      case (Some fErr)
      then show ?thesis using Cons Inr st sf
        by (simp add: recordFailure_def)
    qed
  qed
qed

lemma statLoop_visits:
  "statLoop n g fname fn srcs (s, err) = Some (s', err') \<Longrightarrow>
     \<forall>src\<in>set srcs. \<forall>f. fn src = Inr f \<longrightarrow>
       (\<exists>t t' r. stat n g (statTarget g src f) f (Depth (opts g)) t = Some (t', r)
          \<and> prefix (out s) (out t) \<and> prefix (out t') (out s'))"
proof (induction srcs arbitrary: s err)
  case Nil
  show ?case by simp
next
  case (Cons src srcs)
  show ?case
  proof (cases "fn src")
    case (Inl fErr)
    with Cons.prems have "statLoop n g fname fn srcs
        (s, copyErrStatusCode (reComposeError err (failureMsg fname src fErr)) fErr)
        = Some (s', err')"
      by simp
    from Cons.IH [OF this] show ?thesis using Inl by auto
  next
    case (Inr f)
    with Cons.prems obtain s1 r e1 where
      st: "stat n g (statTarget g src f) f (Depth (opts g)) s = Some (s1, r)"
      and lp: "statLoop n g fname fn srcs (s1, e1) = Some (s', err')"
      by (auto split: option.splits)
    have p1: "prefix (out s) (out s1)" using stat_out_prefix(1) [OF st] .
    have p2: "prefix (out s1) (out s')" using statLoop_out_prefix [OF lp] .
    show ?thesis
    proof (intro ballI allI impI)
      fix x f' assume x: "x \<in> set (src # srcs)" and r: "fn x = Inr f'"
      show "\<exists>t t' r. stat n g (statTarget g x f') f' (Depth (opts g)) t = Some (t', r)
          \<and> prefix (out s) (out t) \<and> prefix (out t') (out s')"
      proof (cases "x = src")
        case True
        then have "f' = f" using Inr r by simp
        then show ?thesis using True st p2 by blast
      next
        case False
        with x have "x \<in> set srcs" by simp
        with Cons.IH [OF lp] r obtain t t' r' where
          "stat n g (statTarget g x f') f' (Depth (opts g)) t = Some (t', r')"
          "prefix (out s1) (out t)" "prefix (out t') (out s')"
          by blast
        then show ?thesis using p1 prefix_order.trans by blast
      qed
    qed
  qed
qed

lemma stat_error_origin:
  "stat n g relToRootPath f depth s = Some (s', Some e) \<Longrightarrow>
     snd (renderObject g relToRootPath f s) = Some e
     \<or> collectChildren (FindByParentId (rem g) (Id_file f) (Hidden (opts g))) [] = Some (Inl e)"
  by (cases n) (auto split: prod.splits option.splits if_splits sum.splits)

lemma resolver_failure_listed:
  assumes "fn src = Inl fErr"
  shows "src \<in> set srcs \<Longrightarrow>
     (src, fErr) \<in> set (List.map_filter (sourceFailure n g fn) srcs)"
proof (induction srcs)
  case Nil
  then show ?case by simp
next
  case (Cons x xs)
  have sf: "sourceFailure n g fn src = Some (src, fErr)"
    using assms by (simp add: sourceFailure_def)
  show ?case
    using Cons sf by (cases "x = src") (auto split: option.splits)
qed

text \<open>
  C2: When the loop of \<^verbatim>\<open>statfn\<close> over the sources returns, the error it returns is nil if
  no source failed. Otherwise its message is the messages of all failures joined by newlines,
  in the order of the sources, so that the message of every failure is part of it, and its
  status code is that of the last failure. Every source whose resolution fails is among the
  failures, and every source that resolves has had its call of \<^verbatim>\<open>stat\<close>, whose output lies
  within the final output, whatever failed before it. With a depth that is not negative, a
  sufficient bound on the nesting and a remote whose listings all end, the loop does return.
\<close>

theorem statfn_aggregates:
  "(\<forall>s' err' fs. statLoop n g fname fn srcs (s, None) = Some (s', err') \<longrightarrow>
       fs = List.map_filter (sourceFailure n g fn) srcs \<longrightarrow>
       (fs = [] \<longrightarrow> err' = None)
       \<and> (fs \<noteq> [] \<longrightarrow>
            (\<exists>e. err' = Some e
               \<and> errMessage e = joinLines (map (\<lambda>fl. failureMsg fname (fst fl) (snd fl)) fs)
               \<and> (\<forall>fl\<in>set fs. sublist (failureMsg fname (fst fl) (snd fl)) (errMessage e))
               \<and> statusCode e = statusCode (snd (last fs))))
       \<and> (\<forall>src\<in>set srcs. \<forall>fErr. fn src = Inl fErr \<longrightarrow> (src, fErr) \<in> set fs)
       \<and> (\<forall>src\<in>set srcs. \<forall>f. fn src = Inr f \<longrightarrow>
            (\<exists>t t' r. stat n g (statTarget g src f) f (Depth (opts g)) t = Some (t', r)
               \<and> prefix (out s) (out t) \<and> prefix (out t') (out s'))))
   \<and> (listingsEnd g \<longrightarrow> 0 \<le> Depth (opts g) \<longrightarrow> nat (Depth (opts g)) < n \<longrightarrow>
        (\<exists>s' err'. statLoop n g fname fn srcs (s, None) = Some (s', err')))"
proof (intro conjI allI impI)
  fix s' err' fs
  assume lp: "statLoop n g fname fn srcs (s, None) = Some (s', err')"
    and fs: "fs = List.map_filter (sourceFailure n g fn) srcs"
  have agg: "err' = foldl (recordFailure fname) None fs"
    using statLoop_failures [OF lp] fs by simp
  show "err' = None" if "fs = []" using agg that by simp
  show "\<exists>e. err' = Some e
      \<and> errMessage e = joinLines (map (\<lambda>fl. failureMsg fname (fst fl) (snd fl)) fs)
      \<and> (\<forall>fl\<in>set fs. sublist (failureMsg fname (fst fl) (snd fl)) (errMessage e))
      \<and> statusCode e = statusCode (snd (last fs))" if "fs \<noteq> []"
  proof -
    from foldl_recordFailure [OF that, of fname] agg obtain e where
      e: "err' = Some e"
        "errMessage e = joinLines (map (\<lambda>fl. failureMsg fname (fst fl) (snd fl)) fs)"
        "statusCode e = statusCode (snd (last fs))"
      by auto
    have "sublist (failureMsg fname (fst fl) (snd fl)) (errMessage e)" if "fl \<in> set fs" for fl
    proof -
      have "failureMsg fname (fst fl) (snd fl)
          \<in> set (map (\<lambda>fl. failureMsg fname (fst fl) (snd fl)) fs)"
        using that by simp
      then show ?thesis
        unfolding e(2) by (rule sublist_joinLines)
    qed
    then show ?thesis using e by simp
  qed
  show "\<forall>src\<in>set srcs. \<forall>fErr. fn src = Inl fErr \<longrightarrow> (src, fErr) \<in> set fs"
  proof (intro ballI allI impI)
    fix src fErr assume "src \<in> set srcs" and "fn src = Inl fErr"
    then show "(src, fErr) \<in> set fs"
      using resolver_failure_listed [where fn = fn and src = src and fErr = fErr] fs by simp
  qed
  show "\<forall>src\<in>set srcs. \<forall>f. fn src = Inr f \<longrightarrow>
      (\<exists>t t' r. stat n g (statTarget g src f) f (Depth (opts g)) t = Some (t', r)
         \<and> prefix (out s) (out t) \<and> prefix (out t') (out s'))"
    using statLoop_visits [OF lp] .
next
  assume "listingsEnd g" "0 \<le> Depth (opts g)" "nat (Depth (opts g)) < n"
  then show "\<exists>s' err'. statLoop n g fname fn srcs (s, None) = Some (s', err')"
    using statLoop_returns [of g n fname fn srcs s None]
    by (cases "statLoop n g fname fn srcs (s, None)") auto
qed

theorem statfn_aggregates_witness:
  "\<exists>s' e. statfn 2 (exampleCommands False True) ''stat'' exampleResolve initialState
        = Some (s', Some e)
     \<and> errMessage e
        = ''stat: bad1 err: not found'' @ [newline, newline] @ ''stat: bad2 err: denied''
          @ [newline]
     \<and> statusCode e = 403"
proof -
  let ?g = "exampleCommands False True"
  let ?srcs = "[''good'', ''bad1'', ''bad2'']"
  have d: "0 \<le> Depth (opts ?g)" "nat (Depth (opts ?g)) < 2"
    by (simp_all add: exampleCommands_def)
  have src: "Sources (opts ?g) = ?srcs" by (simp add: exampleCommands_def)
  note th = statfn_aggregates [where n = 2 and g = ?g and fname = "''stat''"
      and fn = exampleResolve and srcs = ?srcs and s = initialState]
  obtain s' err' where
    1: "statLoop 2 ?g ''stat'' exampleResolve ?srcs (initialState, None) = Some (s', err')"
    using th [THEN conjunct2, rule_format, OF listingsEnd_example d] by blast
  have tg: "statTarget ?g ''good'' fileA = ''good''"
    by (simp add: statTarget_def exampleCommands_def)
  obtain s0 r0 where
    st: "stat 2 ?g ''good'' fileA (Depth (opts ?g)) initialState = Some (s0, r0)"
    using stat_returns(1) [OF listingsEnd_example [of False True] d,
        where relToRootPath = "''good''" and f = fileA and s = initialState]
    by auto
  have "r0 = None"
  proof (cases r0)
    case None
    then show ?thesis .
  next
    case (Some e)
    have "snd (renderObject ?g ''good'' fileA initialState) = None"
      by (rule renderObject_csv(3)) (simp_all add: exampleCommands_def)
    moreover have "collectChildren
        (FindByParentId (rem ?g) (Id_file fileA) (Hidden (opts ?g))) []
        = Some (Inr [fileB, fileC])"
      by (simp add: exampleCommands_def exampleRemote_def fileA_def exampleFile_def)
    ultimately show ?thesis
      using stat_error_origin [OF st [unfolded Some]] by simp
  qed
  then have good: "sourceFailure 2 ?g exampleResolve ''good'' = None"
    using st tg by (simp add: sourceFailure_def exampleResolve_def)
  have bad1: "sourceFailure 2 ?g exampleResolve ''bad1'' = Some (''bad1'', notFound)"
    and bad2: "sourceFailure 2 ?g exampleResolve ''bad2'' = Some (''bad2'', denied)"
    by (simp_all add: sourceFailure_def exampleResolve_def)
  have fs: "[(''bad1'', notFound), (''bad2'', denied)]
      = List.map_filter (sourceFailure 2 ?g exampleResolve) ?srcs"
    by (simp add: good bad1 bad2)
  obtain e where
    e: "err' = Some e"
      "errMessage e = joinLines (map (\<lambda>fl. failureMsg ''stat'' (fst fl) (snd fl))
          [(''bad1'', notFound), (''bad2'', denied)])"
      "statusCode e = statusCode (snd (last [(''bad1'', notFound), (''bad2'', denied)]))"
    using th [THEN conjunct1, rule_format, OF 1 fs, THEN conjunct2, THEN conjunct1] by auto
  have "errMessage e
      = ''stat: bad1 err: not found'' @ [newline, newline] @ ''stat: bad2 err: denied''
        @ [newline]"
    using e(2) by (simp add: failureMsg_def notFound_def denied_def)
  moreover have "statusCode e = 403"
    using e(3) by (simp add: denied_def)
  moreover have "statfn 2 ?g ''stat'' exampleResolve initialState = Some (s', Some e)"
    using 1 e(1) by (simp only: statfn_def src)
  ultimately show ?thesis by blast
qed

section \<open>The checksum lines of a run\<close>

lemma renderObject_md5_out:
  "Md5sum (opts g) \<Longrightarrow>
     renderObject g p f s = (s\<lparr>out := out s @ ownChecksumLine p f\<rparr>, None)"
  by (simp add: renderObject_def ownChecksumLine_def checksumLine_def Logf_def)

lemma stat_checksumLinesOf:
  "Md5sum (opts g) \<Longrightarrow>
     map_option (\<lambda>res. out (fst res)) (stat n g p f depth s)
       = map_option (\<lambda>ls. out s @ ls) (checksumLinesOf n g p f depth)"
  "Md5sum (opts g) \<Longrightarrow>
     map_option out (statChildren n g p children depth s)
       = map_option (\<lambda>ls. out s @ ls) (checksumLinesOfChildren n g p children depth)"
proof (induction n g p f depth s and n g p children depth s
    rule: stat_statChildren.induct)
  case (1 g p f depth s)
  then show ?case by simp
next
  case (2 n g p f depth s)
  let ?s1 = "s\<lparr>out := out s @ ownChecksumLine p f\<rparr>"
  have ro: "renderObject g p f s = (?s1, None)"
    using renderObject_md5_out [OF "2.prems"] .
  show ?case
  proof (cases "depth \<noteq> 0 \<and> IsDir f")
    case False
    then show ?thesis using ro by auto
  next
    case True
    show ?thesis
    proof (cases "collectChildren (FindByParentId (rem g) (Id_file f) (Hidden (opts g))) []")
      case None
      then show ?thesis using ro True by simp
    next
      case (Some res)
      show ?thesis
      proof (cases res)
        case (Inl err)
        then show ?thesis using ro True Some by simp
      next
        case (Inr remoteChildren)
        let ?d = "if depth \<ge> 1 then depth - 1 else depth"
        have ih: "map_option out (statChildren n g p (sortChildren remoteChildren) ?d ?s1)
            = map_option (\<lambda>ls. out ?s1 @ ls)
                (checksumLinesOfChildren n g p (sortChildren remoteChildren) ?d)"
          using "2.IH" [OF ro [symmetric] _ _ _ Some Inr "2.prems"] True "2.prems" by simp
        have st: "stat (Suc n) g p f depth s
            = (case statChildren n g p (sortChildren remoteChildren) ?d ?s1 of
                 None \<Rightarrow> None | Some s2 \<Rightarrow> Some (s2, None))"
          using ro True Some Inr "2.prems" by simp
        have cl: "checksumLinesOf (Suc n) g p f depth
            = map_option (\<lambda>ls. ownChecksumLine p f @ ls)
                (checksumLinesOfChildren n g p (sortChildren remoteChildren) ?d)"
          using True Some Inr by simp
        show ?thesis
          unfolding st cl using ih
          by (cases "statChildren n g p (sortChildren remoteChildren) ?d ?s1";
              cases "checksumLinesOfChildren n g p (sortChildren remoteChildren) ?d")
            simp_all
      qed
    qed
  qed
next
  case (3 n g p depth s)
  then show ?case by simp
next
  case (4 n g p child children depth s)
  let ?q = "Clean (p @ ''/'' @ Name child)"
  have a: "map_option (\<lambda>res. out (fst res)) (stat n g ?q child depth s)
      = map_option (\<lambda>ls. out s @ ls) (checksumLinesOf n g ?q child depth)"
    using "4.IH"(1) [OF "4.prems"] .
  show ?case
  proof (cases "stat n g ?q child depth s")
    case None
    then show ?thesis using a by (cases "checksumLinesOf n g ?q child depth") simp_all
  next
    case (Some res)
    obtain s1 r1 where res: "res = (s1, r1)" by (cases res)
    from a Some res obtain ls where
      ls: "checksumLinesOf n g ?q child depth = Some ls" "out s1 = out s @ ls"
      by (cases "checksumLinesOf n g ?q child depth") auto
    have b: "map_option out (statChildren n g p children depth s1)
        = map_option (\<lambda>rest. out s1 @ rest) (checksumLinesOfChildren n g p children depth)"
      using "4.IH"(2) [OF Some [unfolded res] refl "4.prems"] .
    show ?thesis
      using Some res ls b
      by (cases "checksumLinesOfChildren n g p children depth";
          cases "statChildren n g p children depth s1") simp_all
  qed
qed

lemma statLoop_checksumLines:
  assumes "Md5sum (opts g)"
  shows "map_option (\<lambda>res. out (fst res)) (statLoop n g fname fn srcs (s, err))
      = map_option (\<lambda>ls. out s @ ls) (checksumLinesOfSources n g fn srcs)"
proof (induction srcs arbitrary: s err)
  case Nil
  show ?case by simp
next
  case (Cons src srcs)
  show ?case
  proof (cases "fn src")
    case (Inl fErr)
    then show ?thesis using Cons by simp
  next
    case (Inr f)
    let ?t = "if IsDir f \<and> rootLike (lib g) (Path (opts g)) then [] else Name f"
    have t: "statTarget g src f = ?t" using assms by (simp add: statTarget_def)
    have a: "map_option (\<lambda>res. out (fst res)) (stat n g ?t f (Depth (opts g)) s)
        = map_option (\<lambda>ls. out s @ ls) (checksumLinesOf n g ?t f (Depth (opts g)))"
      using stat_checksumLinesOf(1) [OF assms] .
    show ?thesis
    proof (cases "stat n g ?t f (Depth (opts g)) s")
      case None
      then show ?thesis using a Inr t
        by (cases "checksumLinesOf n g ?t f (Depth (opts g))") simp_all
    next
      case (Some res)
      obtain s1 r1 where res: "res = (s1, r1)" by (cases res)
      from a Some res obtain ls where
        ls: "checksumLinesOf n g ?t f (Depth (opts g)) = Some ls" "out s1 = out s @ ls"
        by (cases "checksumLinesOf n g ?t f (Depth (opts g))") auto
      obtain e1 where
        lp: "statLoop n g fname fn (src # srcs) (s, err) = statLoop n g fname fn srcs (s1, e1)"
        using Inr t Some res by (cases r1) simp_all
      have b: "map_option (\<lambda>res. out (fst res)) (statLoop n g fname fn srcs (s1, e1))
          = map_option (\<lambda>rest. out s1 @ rest) (checksumLinesOfSources n g fn srcs)"
        using Cons.IH .
      show ?thesis
        unfolding lp using Inr ls b
        by (cases "checksumLinesOfSources n g fn srcs";
            cases "statLoop n g fname fn srcs (s1, e1)") simp_all
    qed
  qed
qed

lemma checksumLinesOf_leaf:
  "depth = 0 \<or> \<not> IsDir f \<Longrightarrow> checksumLinesOf (Suc n) g p f depth = Some (ownChecksumLine p f)"
  by simp

lemma checksumLinesOfChildren_leaves:
  "\<forall>c\<in>set cs. depth = 0 \<or> \<not> IsDir c \<Longrightarrow>
     checksumLinesOfChildren (Suc n) g p cs depth
       = Some (concat (map (\<lambda>c. ownChecksumLine (Clean (p @ ''/'' @ Name c)) c) cs))"
proof (induction cs)
  case Nil
  show ?case by simp
next
  case (Cons c cs)
  have "depth = 0 \<or> \<not> IsDir c" using Cons.prems by auto
  then have "checksumLinesOf (Suc n) g (Clean (p @ ''/'' @ Name c)) c depth
      = Some (ownChecksumLine (Clean (p @ ''/'' @ Name c)) c)"
    by (rule checksumLinesOf_leaf)
  then show ?case using Cons by (simp del: checksumLinesOf.simps)
qed

lemma checksumLinesOf_one_level:
  assumes "IsDir f" and "depth \<noteq> 0"
    and "collectChildren (FindByParentId (rem g) (Id_file f) (Hidden (opts g))) []
           = Some (Inr cs)"
    and "depth = 1 \<or> (\<forall>c\<in>set cs. \<not> IsDir c)"
  shows "checksumLinesOf (Suc (Suc m)) g p f depth
      = Some (ownChecksumLine p f
              @ concat (map (\<lambda>c. ownChecksumLine (Clean (p @ ''/'' @ Name c)) c)
                  (sortChildren cs)))"
proof -
  let ?d = "if 1 \<le> depth then depth - 1 else depth"
  have "\<forall>c\<in>set (sortChildren cs). ?d = 0 \<or> \<not> IsDir c"
    using assms(4) by (auto simp: set_sortChildren)
  then have "checksumLinesOfChildren (Suc m) g p (sortChildren cs) ?d
      = Some (concat (map (\<lambda>c. ownChecksumLine (Clean (p @ ''/'' @ Name c)) c)
          (sortChildren cs)))"
    by (rule checksumLinesOfChildren_leaves)
  then show ?thesis
    using assms(1-3) by (simp del: checksumLinesOfChildren.simps)
qed

text \<open>
  C10: In checksum mode the output of a run over the sources is exactly the checksum lines
  of the resolved sources, and a run returns exactly when these lines are defined. The lines
  of a resolved source are those of the traversal that starts at the path that is the name of
  the resolved object, or at the empty path when the object is a container and the configured
  path is root-like: the line of the root carries that path, and the line of every object
  below it carries the path of its parent joined with its own name. The source string plays
  no part: any resolver and any source string that yield the same object give the same run.
  For a container whose children are not expanded further, the lines are the line of the
  container and then those of its children in sorted order. With a depth that is not
  negative, a sufficient bound on the nesting and a remote whose listings all end, the run
  returns.
\<close>

theorem checksum_target_is_name:
  assumes "Md5sum (opts g)"
  shows "map_option (\<lambda>res. out (fst res)) (statLoop n g fname fn srcs (s, err))
      = map_option (\<lambda>ls. out s @ ls) (checksumLinesOfSources n g fn srcs)
    \<and> (\<forall>f src fn' src'. fn src = Inr f \<longrightarrow> fn' src' = Inr f \<longrightarrow>
          statLoop n g fname fn' [src'] (s, err) = statLoop n g fname fn [src] (s, err))
    \<and> (listingsEnd g \<longrightarrow> 0 \<le> Depth (opts g) \<longrightarrow> nat (Depth (opts g)) < n \<longrightarrow>
          (\<exists>s' err'. statLoop n g fname fn srcs (s, err) = Some (s', err')))
    \<and> (\<forall>f cs depth p m. IsDir f \<longrightarrow> depth \<noteq> 0 \<longrightarrow>
          collectChildren (FindByParentId (rem g) (Id_file f) (Hidden (opts g))) []
            = Some (Inr cs) \<longrightarrow>
          depth = 1 \<or> (\<forall>c\<in>set cs. \<not> IsDir c) \<longrightarrow>
          checksumLinesOf (Suc (Suc m)) g p f depth
            = Some (ownChecksumLine p f
                    @ concat (map (\<lambda>c. ownChecksumLine (Clean (p @ ''/'' @ Name c)) c)
                        (sortChildren cs))))"
proof (intro conjI allI impI)
  show "map_option (\<lambda>res. out (fst res)) (statLoop n g fname fn srcs (s, err))
      = map_option (\<lambda>ls. out s @ ls) (checksumLinesOfSources n g fn srcs)"
    using statLoop_checksumLines [OF assms] .
next
  fix f :: File and src :: string and fn' :: "string \<Rightarrow> error + File" and src' :: string
  assume a: "fn src = Inr f" and b: "fn' src' = Inr f"
  have "statTarget g src' f = statTarget g src f"
    using assms by (simp add: statTarget_def)
  then show "statLoop n g fname fn' [src'] (s, err) = statLoop n g fname fn [src] (s, err)"
    using a b by (simp split: option.splits)
next
  assume "listingsEnd g" "0 \<le> Depth (opts g)" "nat (Depth (opts g)) < n"
  then show "\<exists>s' err'. statLoop n g fname fn srcs (s, err) = Some (s', err')"
    using statLoop_returns [of g n fname fn srcs s err]
    by (cases "statLoop n g fname fn srcs (s, err)") auto
next
  fix f :: File and cs :: "File list" and depth :: int and p :: string and m :: nat
  assume "IsDir f" "depth \<noteq> 0"
    "collectChildren (FindByParentId (rem g) (Id_file f) (Hidden (opts g))) [] = Some (Inr cs)"
    "depth = 1 \<or> (\<forall>c\<in>set cs. \<not> IsDir c)"
  then show "checksumLinesOf (Suc (Suc m)) g p f depth
      = Some (ownChecksumLine p f
              @ concat (map (\<lambda>c. ownChecksumLine (Clean (p @ ''/'' @ Name c)) c)
                  (sortChildren cs)))"
    by (rule checksumLinesOf_one_level)
qed

theorem checksum_target_is_name_witness:
  "(\<exists>s' e. statfn 2 (exampleCommands True False) ''stat'' exampleResolve initialState
        = Some (s', e)
      \<and> out s' = [padLeft 32 ''aa'' @ ''  c'' @ [newline],
                  padLeft 32 ''deadbeef'' @ ''  b'' @ [newline]])
   \<and> (\<exists>s' e. statfn 2
          ((exampleCommands True False)
             \<lparr>opts := (opts (exampleCommands True False))\<lparr>Path := ''/x''\<rparr>\<rparr>)
          ''stat'' exampleResolve initialState
        = Some (s', e)
      \<and> out s' = [padLeft 32 ''aa'' @ ''  a/c'' @ [newline],
                  padLeft 32 ''deadbeef'' @ ''  a/b'' @ [newline]])"
proof -
  let ?g = "exampleCommands True False"
  let ?h = "?g\<lparr>opts := (opts ?g)\<lparr>Path := ''/x''\<rparr>\<rparr>"
  let ?srcs = "[''good'', ''bad1'', ''bad2'']"
  have m: "Md5sum (opts ?g)" and m': "Md5sum (opts ?h)"
    by (simp_all add: exampleCommands_def)
  have src: "Sources (opts ?g) = ?srcs" "Sources (opts ?h) = ?srcs"
    by (simp_all add: exampleCommands_def)
  have dir: "IsDir fileA" by (simp add: fileA_def exampleFile_def)
  have nm: "Name fileA = ''a''" "Name fileB = ''b''" "Name fileC = ''c''"
    by (simp_all add: fileA_def fileB_def fileC_def exampleFile_def)
  have d: "Depth (opts ?g) = 1" "Depth (opts ?h) = 1"
    by (simp_all add: exampleCommands_def)
  have rl: "rootLike (lib ?g) (Path (opts ?g))" "\<not> rootLike (lib ?g) ''/x''"
    by (simp_all add: exampleCommands_def exampleLib_def)
  have cc: "collectChildren (FindByParentId (rem ?g) (Id_file fileA) (Hidden (opts ?g))) []
        = Some (Inr [fileB, fileC])"
      "collectChildren (FindByParentId (rem ?h) (Id_file fileA) (Hidden (opts ?h))) []
        = Some (Inr [fileB, fileC])"
    by (simp_all add: exampleCommands_def exampleRemote_def fileA_def exampleFile_def)
  have so: "sortChildren [fileB, fileC] = [fileC, fileB]"
    by (simp add: sortChildren_def fileB_def fileC_def exampleFile_def)
  have cl: "Clean ''/c'' = ''/c''" "Clean ''/b'' = ''/b''"
      "Clean ''a/c'' = ''a/c''" "Clean ''a/b'' = ''a/b''"
    by (simp_all add: Clean_def)
  have own: "ownChecksumLine [] fileA = []" "ownChecksumLine ''a'' fileA = []"
      "ownChecksumLine ''/c'' fileC = [padLeft 32 ''aa'' @ ''  c'' @ [newline]]"
      "ownChecksumLine ''/b'' fileB = [padLeft 32 ''deadbeef'' @ ''  b'' @ [newline]]"
      "ownChecksumLine ''a/c'' fileC = [padLeft 32 ''aa'' @ ''  a/c'' @ [newline]]"
      "ownChecksumLine ''a/b'' fileB = [padLeft 32 ''deadbeef'' @ ''  a/b'' @ [newline]]"
    by (simp_all add: ownChecksumLine_def fileA_def fileB_def fileC_def exampleFile_def)
  have rs: "exampleResolve ''good'' = Inr fileA" "exampleResolve ''bad1'' = Inl notFound"
      "exampleResolve ''bad2'' = Inl denied"
    by (simp_all add: exampleResolve_def)
  have one: "(1::int) \<noteq> 0" "(1::int) = 1 \<or> (\<forall>c\<in>set [fileB, fileC]. \<not> IsDir c)"
    by simp_all
  note tg = checksum_target_is_name [OF m, where n = "Suc (Suc 0)" and fname = "''stat''"
      and fn = exampleResolve and srcs = ?srcs and s = initialState and err = None]
  note th = checksum_target_is_name [OF m', where n = "Suc (Suc 0)" and fname = "''stat''"
      and fn = exampleResolve and srcs = ?srcs and s = initialState and err = None]
  have lg: "checksumLinesOf (Suc (Suc 0)) ?g [] fileA 1
      = Some [padLeft 32 ''aa'' @ ''  c'' @ [newline],
              padLeft 32 ''deadbeef'' @ ''  b'' @ [newline]]"
    using tg [THEN conjunct2, THEN conjunct2, THEN conjunct2, rule_format,
        where p = "[]" and m = 0, OF dir one(1) cc(1) one(2)]
    by (simp add: so nm cl own del: checksumLinesOf.simps)
  have lh: "checksumLinesOf (Suc (Suc 0)) ?h ''a'' fileA 1
      = Some [padLeft 32 ''aa'' @ ''  a/c'' @ [newline],
              padLeft 32 ''deadbeef'' @ ''  a/b'' @ [newline]]"
    using th [THEN conjunct2, THEN conjunct2, THEN conjunct2, rule_format,
        where p = "''a''" and m = 0, OF dir one(1) cc(2) one(2)]
    by (simp add: so nm cl own del: checksumLinesOf.simps)
  have sg: "checksumLinesOfSources (Suc (Suc 0)) ?g exampleResolve ?srcs
      = Some [padLeft 32 ''aa'' @ ''  c'' @ [newline],
              padLeft 32 ''deadbeef'' @ ''  b'' @ [newline]]"
    by (simp add: rs dir rl d lg del: checksumLinesOf.simps)
  have sh: "checksumLinesOfSources (Suc (Suc 0)) ?h exampleResolve ?srcs
      = Some [padLeft 32 ''aa'' @ ''  a/c'' @ [newline],
              padLeft 32 ''deadbeef'' @ ''  a/b'' @ [newline]]"
    by (simp add: rs dir rl d nm lh del: checksumLinesOf.simps)
  have i: "out initialState = []" by (simp add: initialState_def)
  have "map_option (\<lambda>res. out (fst res))
        (statLoop (Suc (Suc 0)) ?g ''stat'' exampleResolve ?srcs (initialState, None))
      = Some [padLeft 32 ''aa'' @ ''  c'' @ [newline],
              padLeft 32 ''deadbeef'' @ ''  b'' @ [newline]]"
    using tg [THEN conjunct1] by (simp only: sg i option.map append_Nil)
  then obtain s1 e1 where
    1: "statLoop (Suc (Suc 0)) ?g ''stat'' exampleResolve ?srcs (initialState, None)
        = Some (s1, e1)"
      "out s1 = [padLeft 32 ''aa'' @ ''  c'' @ [newline],
                 padLeft 32 ''deadbeef'' @ ''  b'' @ [newline]]"
    by (cases "statLoop (Suc (Suc 0)) ?g ''stat'' exampleResolve ?srcs (initialState, None)")
       auto
  have "map_option (\<lambda>res. out (fst res))
        (statLoop (Suc (Suc 0)) ?h ''stat'' exampleResolve ?srcs (initialState, None))
      = Some [padLeft 32 ''aa'' @ ''  a/c'' @ [newline],
              padLeft 32 ''deadbeef'' @ ''  a/b'' @ [newline]]"
    using th [THEN conjunct1] by (simp only: sh i option.map append_Nil)
  then obtain s2 e2 where
    2: "statLoop (Suc (Suc 0)) ?h ''stat'' exampleResolve ?srcs (initialState, None)
        = Some (s2, e2)"
      "out s2 = [padLeft 32 ''aa'' @ ''  a/c'' @ [newline],
                 padLeft 32 ''deadbeef'' @ ''  a/b'' @ [newline]]"
    by (cases "statLoop (Suc (Suc 0)) ?h ''stat'' exampleResolve ?srcs (initialState, None)")
       auto
  have "statfn 2 ?g ''stat'' exampleResolve initialState = Some (s1, e1)"
    and "statfn 2 ?h ''stat'' exampleResolve initialState = Some (s2, e2)"
    using 1(1) 2(1) by (simp_all only: statfn_def src numeral_2_eq_2)
  then show ?thesis using 1(2) 2(2) by blast
qed

end
